theory Spec2Isabelle
  imports Main "HOL-Library.Word"
begin

section \<open>JavaScript strings\<close>

text \<open>
  A JavaScript string is a sequence of 16-bit code units. \<open>lit\<close> turns an ASCII literal
  into such a sequence.
\<close>

type_synonym jschar = "16 word"
type_synonym jsstring = "jschar list"

definition lit :: "string \<Rightarrow> jsstring" where
  "lit s = map (\<lambda>c. of_nat (of_char c)) s"

definition NL :: jschar where
  "NL = 10"

definition COLON :: jschar where
  "COLON = 58"

definition BEGIN_VEVENT :: jsstring where
  "BEGIN_VEVENT = lit ''BEGIN:VEVENT''"

definition END_VEVENT :: jsstring where
  "END_VEVENT = lit ''END:VEVENT''"

text \<open>\<open>s.startsWith(p)\<close>\<close>

definition startsWith :: "jsstring \<Rightarrow> jsstring \<Rightarrow> bool" where
  "startsWith s p = (take (length p) s = p)"

text \<open>\<open>s.endsWith(p)\<close>\<close>

definition endsWith :: "jsstring \<Rightarrow> jsstring \<Rightarrow> bool" where
  "endsWith s p = (length p \<le> length s \<and> drop (length s - length p) s = p)"

text \<open>
  \<open>s.split(sep)\<close> for a separator of one code unit: the result is never empty, and
  \<open>"".split(sep)\<close> is \<open>[""]\<close>.
\<close>

fun split :: "jschar \<Rightarrow> jsstring \<Rightarrow> jsstring list" where
  "split sep [] = [[]]"
| "split sep (c # cs) =
     (if c = sep then [] # split sep cs
      else (case split sep cs of
              [] \<Rightarrow> [[c]]
            | part # parts \<Rightarrow> (c # part) # parts))"

text \<open>\<open>xs.join(sep)\<close>\<close>

fun join :: "jsstring \<Rightarrow> jsstring list \<Rightarrow> jsstring" where
  "join sep [] = []"
| "join sep [x] = x"
| "join sep (x # y # ys) = x @ sep @ join sep (y # ys)"

text \<open>
  The code units \<open>String.prototype.trim\<close> strips: ECMAScript's WhiteSpace and
  LineTerminator productions.
\<close>

definition isWhiteSpace :: "jschar \<Rightarrow> bool" where
  "isWhiteSpace c =
     (c = 0x9 \<or> c = 0xA \<or> c = 0xB \<or> c = 0xC \<or> c = 0xD \<or> c = 0x20 \<or> c = 0xA0 \<or>
      c = 0x1680 \<or> (0x2000 \<le> c \<and> c \<le> 0x200A) \<or> c = 0x2028 \<or> c = 0x2029 \<or>
      c = 0x202F \<or> c = 0x205F \<or> c = 0x3000 \<or> c = 0xFEFF)"

definition trim :: "jsstring \<Rightarrow> jsstring" where
  "trim s = rev (dropWhile isWhiteSpace (rev (dropWhile isWhiteSpace s)))"

section \<open>JavaScript values and objects\<close>

text \<open>
  A \<open>Date\<close> is its time value: milliseconds since the epoch, or NaN (an invalid date).
\<close>

datatype jsdate = InvalidDate | TimeValue int

text \<open>
  The values a property can hold (the type \<open>unknown\<close> of the source): \<open>undefined\<close>,
  \<open>null\<close>, booleans, integral numbers, strings and dates. The program only asks of a
  value whether it is truthy, whether it is a string (\<open>typeof v === "string"\<close> holds
  exactly for \<open>VStr\<close>), whether it is \<open>undefined\<close>, and what it prints as.
\<close>

datatype jsval = VUndefined | VNull | VBool bool | VNum int | VStr jsstring | VDate jsdate

text \<open>The truthiness test of \<open>if (v)\<close> and \<open>a && b\<close>.\<close>

fun truthy :: "jsval \<Rightarrow> bool" where
  "truthy VUndefined = False"
| "truthy VNull = False"
| "truthy (VBool b) = b"
| "truthy (VNum n) = (n \<noteq> 0)"
| "truthy (VStr s) = (s \<noteq> [])"
| "truthy (VDate d) = True"

fun is_string :: "jsval \<Rightarrow> bool" where
  "is_string (VStr s) = True"
| "is_string v = False"

text \<open>
  The conversion a template literal \<open>`${v}`\<close> applies: the identity on strings. What the
  engine prints for the other values (numbers, dates, \<dots>) is the parameter \<open>tostr\<close>.
\<close>

definition template :: "(jsval \<Rightarrow> jsstring) \<Rightarrow> jsval \<Rightarrow> jsstring" where
  "template tostr v = (case v of VStr s \<Rightarrow> s | _ \<Rightarrow> tostr v)"

text \<open>
  An object (\<open>Record<string, unknown>\<close>, \<open>Event\<close>) is the list of its own enumerable
  properties in the order \<open>Object.entries\<close> and \<open>for \<dots> in\<close> enumerate them: the keys
  that are array indices (canonical decimal numerals below \<open>2^32 - 1\<close>) first, in
  ascending numeric order, then the other keys in the order of their creation.
\<close>

type_synonym jsobject = "(jsstring \<times> jsval) list"

definition isDigit :: "jschar \<Rightarrow> bool" where
  "isDigit c = (0x30 \<le> c \<and> c \<le> 0x39)"

definition digitsValue :: "jsstring \<Rightarrow> int" where
  "digitsValue ds = foldl (\<lambda>n c. 10 * n + (uint c - 48)) 0 ds"

definition arrayIndex :: "jsstring \<Rightarrow> int option" where
  "arrayIndex k =
     (if k \<noteq> [] \<and> list_all isDigit k \<and> (hd k \<noteq> 0x30 \<or> length k = 1)
         \<and> digitsValue k < 4294967295
      then Some (digitsValue k) else None)"

text \<open>\<open>obj[k]\<close> and \<open>obj.k\<close>: a property that is absent reads as \<open>undefined\<close>.\<close>

definition obj_get :: "jsobject \<Rightarrow> jsstring \<Rightarrow> jsval" where
  "obj_get obj k = (case map_of obj k of Some v \<Rightarrow> v | None \<Rightarrow> VUndefined)"

fun obj_update :: "jsstring \<Rightarrow> jsval \<Rightarrow> jsobject \<Rightarrow> jsobject" where
  "obj_update k v [] = []"
| "obj_update k v ((k', v') # ps) =
     (if k' = k then (k, v) # ps else (k', v') # obj_update k v ps)"

fun obj_insert_index :: "int \<Rightarrow> jsstring \<Rightarrow> jsval \<Rightarrow> jsobject \<Rightarrow> jsobject" where
  "obj_insert_index i k v [] = [(k, v)]"
| "obj_insert_index i k v ((k', v') # ps) =
     (case arrayIndex k' of
        Some j \<Rightarrow> if j < i then (k', v') # obj_insert_index i k v ps
                  else (k, v) # (k', v') # ps
      | None \<Rightarrow> (k, v) # (k', v') # ps)"

text \<open>
  \<open>obj[k] = v\<close> on an object created by \<open>{}\<close>. An existing property keeps its place; a
  new one takes the place the enumeration order gives it. The name \<open>__proto__\<close> is the
  accessor inherited from \<open>Object.prototype\<close>: assigning to it never creates an own
  property.
\<close>

definition obj_set :: "jsobject \<Rightarrow> jsstring \<Rightarrow> jsval \<Rightarrow> jsobject" where
  "obj_set obj k v =
     (if k = lit ''__proto__'' then obj
      else if k \<in> set (map fst obj) then obj_update k v obj
      else (case arrayIndex k of
              Some i \<Rightarrow> obj_insert_index i k v obj
            | None \<Rightarrow> obj @ [(k, v)]))"

section \<open>Block Extractor\<close>

text \<open>
  The state of the scan of \<open>icalToWebDav\<close>: the blocks pushed so far and
  \<open>currentLine\<close> (\<open>None\<close> is \<open>null\<close>). \<open>if (currentLine)\<close> is false for \<open>null\<close> and
  for the empty string.
\<close>

fun str_truthy :: "jsstring option \<Rightarrow> bool" where
  "str_truthy None = False"
| "str_truthy (Some s) = (s \<noteq> [])"

fun icalToWebDav_step ::
  "jsstring list \<times> jsstring option \<Rightarrow> jsstring \<Rightarrow> jsstring list \<times> jsstring option" where
  "icalToWebDav_step (webDavLines, currentLine) line =
     (if startsWith line BEGIN_VEVENT then
        ((if str_truthy currentLine then webDavLines @ [the currentLine] else webDavLines),
         Some line)
      else if startsWith line END_VEVENT then
        (if str_truthy currentLine then (webDavLines @ [the currentLine], None)
         else (webDavLines, currentLine))
      else if str_truthy currentLine then
        (webDavLines, Some (the currentLine @ [NL] @ line))
      else (webDavLines, currentLine))"

definition icalToWebDav :: "jsstring \<Rightarrow> jsstring \<Rightarrow> jsstring" where
  "icalToWebDav icalData baseUrl =
     (let lines = split NL icalData;
          (webDavLines, currentLine) = foldl icalToWebDav_step ([], None) lines
      in join [NL] (if str_truthy currentLine then webDavLines @ [the currentLine]
                    else webDavLines))"

fun webDavToIcal_step ::
  "jsstring list \<times> jsstring option \<Rightarrow> jsstring \<Rightarrow> jsstring list \<times> jsstring option" where
  "webDavToIcal_step (icalLines, currentLine) line =
     (if startsWith line BEGIN_VEVENT then
        ((if str_truthy currentLine then icalLines @ [the currentLine] else icalLines),
         Some line)
      else if startsWith line END_VEVENT then
        (if str_truthy currentLine then (icalLines @ [the currentLine], None)
         else (icalLines, currentLine))
      else if str_truthy currentLine then
        (icalLines, Some (the currentLine @ [NL] @ line))
      else (icalLines, currentLine))"

definition webDavToIcal :: "jsstring \<Rightarrow> jsstring" where
  "webDavToIcal webDavData =
     (let lines = split NL webDavData;
          (icalLines, currentLine) = foldl webDavToIcal_step ([], None) lines
      in join [NL] (if str_truthy currentLine then icalLines @ [the currentLine]
                    else icalLines))"

section \<open>Record Codec\<close>

text \<open>
  The state of the scan of \<open>parseIcal\<close>: \<open>events\<close> and \<open>currentEvent\<close> (\<open>None\<close> is
  \<open>null\<close>; an object is always truthy). The destructuring
  \<open>[key, ...valueParts] = line.split(":")\<close> takes the head and the tail of the parts.
\<close>

fun parseIcal_step ::
  "jsobject list \<times> jsobject option \<Rightarrow> jsstring \<Rightarrow> jsobject list \<times> jsobject option" where
  "parseIcal_step (events, currentEvent) line =
     (if startsWith line BEGIN_VEVENT then (events, Some [])
      else if startsWith line END_VEVENT then
        (case currentEvent of
           Some ev \<Rightarrow> (events @ [ev], None)
         | None \<Rightarrow> (events, currentEvent))
      else
        (case currentEvent of
           Some ev \<Rightarrow>
             (let key = hd (split COLON line);
                  valueParts = tl (split COLON line);
                  val = trim (join [COLON] valueParts)
              in if key \<noteq> [] \<and> val \<noteq> []
                 then (events, Some (obj_set ev (trim key) (VStr val)))
                 else (events, currentEvent))
         | None \<Rightarrow> (events, currentEvent)))"

definition parseIcal :: "jsstring \<Rightarrow> jsobject list" where
  "parseIcal icalData = fst (foldl parseIcal_step ([], None) (split NL icalData))"

fun parseWebDav_step ::
  "jsobject list \<times> jsobject option \<Rightarrow> jsstring \<Rightarrow> jsobject list \<times> jsobject option" where
  "parseWebDav_step (events, currentEvent) line =
     (if startsWith line BEGIN_VEVENT then (events, Some [])
      else if startsWith line END_VEVENT then
        (case currentEvent of
           Some ev \<Rightarrow> (events @ [ev], None)
         | None \<Rightarrow> (events, currentEvent))
      else
        (case currentEvent of
           Some ev \<Rightarrow>
             (let key = hd (split COLON line);
                  valueParts = tl (split COLON line);
                  val = trim (join [COLON] valueParts)
              in if key \<noteq> [] \<and> val \<noteq> []
                 then (events, Some (obj_set ev (trim key) (VStr val)))
                 else (events, currentEvent))
         | None \<Rightarrow> (events, currentEvent)))"

definition parseWebDav :: "jsstring \<Rightarrow> jsobject list" where
  "parseWebDav webDavData = fst (foldl parseWebDav_step ([], None) (split NL webDavData))"

text \<open>
  \<open>icalToString\<close>: the inner loop pushes one line for each entry whose key and value are
  both truthy, the outer loop brackets them with the two markers.
\<close>

definition icalToString_entry ::
  "(jsval \<Rightarrow> jsstring) \<Rightarrow> jsstring list \<Rightarrow> jsstring \<times> jsval \<Rightarrow> jsstring list" where
  "icalToString_entry tostr lines kv =
     (if fst kv \<noteq> [] \<and> truthy (snd kv)
      then lines @ [fst kv @ [COLON] @ template tostr (snd kv)] else lines)"

definition icalToString_event ::
  "(jsval \<Rightarrow> jsstring) \<Rightarrow> jsstring list \<Rightarrow> jsobject \<Rightarrow> jsstring list" where
  "icalToString_event tostr lines event =
     foldl (icalToString_entry tostr) (lines @ [BEGIN_VEVENT]) event @ [END_VEVENT]"

definition icalToString :: "(jsval \<Rightarrow> jsstring) \<Rightarrow> jsobject list \<Rightarrow> jsstring" where
  "icalToString tostr icalData = join [NL] (foldl (icalToString_event tostr) [] icalData)"

definition webDavToString_entry ::
  "(jsval \<Rightarrow> jsstring) \<Rightarrow> jsstring list \<Rightarrow> jsstring \<times> jsval \<Rightarrow> jsstring list" where
  "webDavToString_entry tostr lines kv =
     (if fst kv \<noteq> [] \<and> truthy (snd kv)
      then lines @ [fst kv @ [COLON] @ template tostr (snd kv)] else lines)"

definition webDavToString_event ::
  "(jsval \<Rightarrow> jsstring) \<Rightarrow> jsstring list \<Rightarrow> jsobject \<Rightarrow> jsstring list" where
  "webDavToString_event tostr lines event =
     foldl (webDavToString_entry tostr) (lines @ [BEGIN_VEVENT]) event @ [END_VEVENT]"

definition webDavToString :: "(jsval \<Rightarrow> jsstring) \<Rightarrow> jsobject list \<Rightarrow> jsstring" where
  "webDavToString tostr webDavData =
     join [NL] (foldl (webDavToString_event tostr) [] webDavData)"

section \<open>Date-time conversion\<close>

subsection \<open>The library: numbers, \<open>parseInt\<close>, \<open>padStart\<close>, \<open>Date\<close>\<close>

text \<open>
  A Number that is an integer or NaN is an \<open>int option\<close> (\<open>None\<close> is NaN); the
  program only meets the results of \<open>parseInt\<close> on at most four code units and of the
  getters of \<open>Date\<close>.
\<close>

text \<open>\<open>s.slice(a, b)\<close> for \<open>0 \<le> a \<le> b\<close>.\<close>

definition slice :: "nat \<Rightarrow> nat \<Rightarrow> jsstring \<Rightarrow> jsstring" where
  "slice a b s = take (b - a) (drop a s)"

text \<open>
  \<open>Number.parseInt(s, 10)\<close>: leading white space is skipped, then an optional sign,
  then the longest run of decimal digits; no digit gives NaN.
\<close>

definition parseInt :: "jsstring \<Rightarrow> int option" where
  "parseInt s =
     (let s1 = dropWhile isWhiteSpace s;
          neg = (s1 \<noteq> [] \<and> hd s1 = 0x2D);
          s2 = (if s1 \<noteq> [] \<and> (hd s1 = 0x2D \<or> hd s1 = 0x2B) then tl s1 else s1);
          ds = takeWhile isDigit s2
      in if ds = [] then None
         else Some (if neg then - digitsValue ds else digitsValue ds))"

text \<open>\<open>n.toString()\<close> of a natural number, of an integer, of an integer or NaN.\<close>

definition digitChar :: "nat \<Rightarrow> jschar" where
  "digitChar d = of_nat (48 + d)"

fun natToString :: "nat \<Rightarrow> jsstring" where
  "natToString n =
     (if n < 10 then [digitChar n]
      else natToString (n div 10) @ [digitChar (n mod 10)])"

declare natToString.simps [simp del]

definition numberToString :: "int option \<Rightarrow> jsstring" where
  "numberToString x =
     (case x of
        None \<Rightarrow> lit ''NaN''
      | Some n \<Rightarrow> if n < 0 then 0x2D # natToString (nat (- n)) else natToString (nat n))"

text \<open>\<open>s.padStart(n, c)\<close> for a filler of one code unit.\<close>

definition padStart :: "nat \<Rightarrow> jschar \<Rightarrow> jsstring \<Rightarrow> jsstring" where
  "padStart n c s = replicate (n - length s) c @ s"

text \<open>
  The date arithmetic of ECMAScript (section "Time Values and Time Range"), on integers;
  \<open>div\<close> rounds down, as \<open>floor\<close> does there.
\<close>

definition msPerDay :: int where
  "msPerDay = 86400000"

definition Day :: "int \<Rightarrow> int" where
  "Day t = t div msPerDay"

definition DayFromYear :: "int \<Rightarrow> int" where
  "DayFromYear y =
     365 * (y - 1970) + (y - 1969) div 4 - (y - 1901) div 100 + (y - 1601) div 400"

definition DaysInYear :: "int \<Rightarrow> int" where
  "DaysInYear y =
     (if y mod 4 \<noteq> 0 then 365 else if y mod 100 \<noteq> 0 then 366
      else if y mod 400 \<noteq> 0 then 365 else 366)"

text \<open>
  The largest year that starts on or before day \<open>d\<close>: a year has 146097 / 400 days on
  average, so the estimate is off by one year at most.
\<close>

definition YearFromDay :: "int \<Rightarrow> int" where
  "YearFromDay d =
     (let y = 1970 + (400 * d) div 146097
      in if d < DayFromYear y then y - 1
         else if DayFromYear (y + 1) \<le> d then y + 1 else y)"

definition YearFromTime :: "int \<Rightarrow> int" where
  "YearFromTime t = YearFromDay (Day t)"

definition InLeapYear :: "int \<Rightarrow> int" where
  "InLeapYear t = (if DaysInYear (YearFromTime t) = 366 then 1 else 0)"

definition DayWithinYear :: "int \<Rightarrow> int" where
  "DayWithinYear t = Day t - DayFromYear (YearFromTime t)"

text \<open>The number of days of a year before its month \<open>m\<close> (0 is January).\<close>

definition DaysBeforeMonth :: "int \<Rightarrow> int \<Rightarrow> int" where
  "DaysBeforeMonth m leap =
     (if m = 0 then 0 else if m = 1 then 31 else if m = 2 then 59 + leap
      else if m = 3 then 90 + leap else if m = 4 then 120 + leap
      else if m = 5 then 151 + leap else if m = 6 then 181 + leap
      else if m = 7 then 212 + leap else if m = 8 then 243 + leap
      else if m = 9 then 273 + leap else if m = 10 then 304 + leap
      else 334 + leap)"

definition MonthFromTime :: "int \<Rightarrow> int" where
  "MonthFromTime t =
     (let d = DayWithinYear t; leap = InLeapYear t
      in if d < 31 then 0 else if d < 59 + leap then 1 else if d < 90 + leap then 2
         else if d < 120 + leap then 3 else if d < 151 + leap then 4
         else if d < 181 + leap then 5 else if d < 212 + leap then 6
         else if d < 243 + leap then 7 else if d < 273 + leap then 8
         else if d < 304 + leap then 9 else if d < 334 + leap then 10 else 11)"

definition DateFromTime :: "int \<Rightarrow> int" where
  "DateFromTime t =
     DayWithinYear t - DaysBeforeMonth (MonthFromTime t) (InLeapYear t) + 1"

definition HourFromTime :: "int \<Rightarrow> int" where
  "HourFromTime t = (t div 3600000) mod 24"

definition MinFromTime :: "int \<Rightarrow> int" where
  "MinFromTime t = (t div 60000) mod 60"

definition SecFromTime :: "int \<Rightarrow> int" where
  "SecFromTime t = (t div 1000) mod 60"

definition MakeTime :: "int \<Rightarrow> int \<Rightarrow> int \<Rightarrow> int \<Rightarrow> int" where
  "MakeTime hour minute sec ms = hour * 3600000 + minute * 60000 + sec * 1000 + ms"

definition MakeDay :: "int \<Rightarrow> int \<Rightarrow> int \<Rightarrow> int" where
  "MakeDay year month date =
     (let ym = year + month div 12; mn = month mod 12
      in DayFromYear ym + DaysBeforeMonth mn (if DaysInYear ym = 366 then 1 else 0)
         + date - 1)"

definition MakeDate :: "int \<Rightarrow> int \<Rightarrow> int" where
  "MakeDate day time = day * msPerDay + time"

definition TimeClip :: "int \<Rightarrow> jsdate" where
  "TimeClip t = (if \<bar>t\<bar> > 8640000000000000 then InvalidDate else TimeValue t)"

text \<open>
  The time of a call \<open>(year, month, date, hours, minutes, seconds)\<close> before the time zone
  is applied, as \<open>Date.UTC\<close> and the \<open>Date\<close> constructor compute it: NaN in any place
  gives NaN, and a year from 0 to 99 means 1900 to 1999.
\<close>

definition MakeFullDate ::
  "int option \<Rightarrow> int option \<Rightarrow> int option \<Rightarrow> int option \<Rightarrow> int option \<Rightarrow> int option
   \<Rightarrow> int option" where
  "MakeFullDate year month date hours minutes seconds =
     (case (year, month, date, hours, minutes, seconds) of
        (Some y, Some m, Some dt, Some h, Some mi, Some s) \<Rightarrow>
          (let yr = (if 0 \<le> y \<and> y \<le> 99 then 1900 + y else y)
           in Some (MakeDate (MakeDay yr m dt) (MakeTime h mi s 0)))
      | _ \<Rightarrow> None)"

text \<open>\<open>new Date(Date.UTC(year, month, date, hours, minutes, seconds))\<close>\<close>

definition Date_UTC ::
  "int option \<Rightarrow> int option \<Rightarrow> int option \<Rightarrow> int option \<Rightarrow> int option \<Rightarrow> int option
   \<Rightarrow> jsdate" where
  "Date_UTC year month date hours minutes seconds =
     (case MakeFullDate year month date hours minutes seconds of
        Some t \<Rightarrow> TimeClip t
      | None \<Rightarrow> InvalidDate)"

text \<open>
  The time zone of the host is a parameter: \<open>offsetOfUTC t\<close> is what local time is ahead
  of UTC at the UTC time \<open>t\<close>, \<open>offsetOfLocal t\<close> the same at the local time \<open>t\<close>
  (\<open>LocalTZA(t, true)\<close> and \<open>LocalTZA(t, false)\<close> of ECMAScript).
\<close>

record timezone =
  offsetOfUTC :: "int \<Rightarrow> int"
  offsetOfLocal :: "int \<Rightarrow> int"

text \<open>\<open>new Date(year, month, date, hours, minutes, seconds)\<close>\<close>

definition Date_local ::
  "timezone \<Rightarrow> int option \<Rightarrow> int option \<Rightarrow> int option \<Rightarrow> int option \<Rightarrow> int option
   \<Rightarrow> int option \<Rightarrow> jsdate" where
  "Date_local tz year month date hours minutes seconds =
     (case MakeFullDate year month date hours minutes seconds of
        Some t \<Rightarrow> TimeClip (t - offsetOfLocal tz t)
      | None \<Rightarrow> InvalidDate)"

text \<open>The getters; each gives NaN on an invalid date.\<close>

fun utcField :: "(int \<Rightarrow> int) \<Rightarrow> jsdate \<Rightarrow> int option" where
  "utcField f InvalidDate = None"
| "utcField f (TimeValue t) = Some (f t)"

fun localField :: "timezone \<Rightarrow> (int \<Rightarrow> int) \<Rightarrow> jsdate \<Rightarrow> int option" where
  "localField tz f InvalidDate = None"
| "localField tz f (TimeValue t) = Some (f (t + offsetOfUTC tz t))"

definition getUTCFullYear :: "jsdate \<Rightarrow> int option" where
  "getUTCFullYear = utcField YearFromTime"

definition getUTCMonth :: "jsdate \<Rightarrow> int option" where
  "getUTCMonth = utcField MonthFromTime"

definition getUTCDate :: "jsdate \<Rightarrow> int option" where
  "getUTCDate = utcField DateFromTime"

definition getUTCHours :: "jsdate \<Rightarrow> int option" where
  "getUTCHours = utcField HourFromTime"

definition getUTCMinutes :: "jsdate \<Rightarrow> int option" where
  "getUTCMinutes = utcField MinFromTime"

definition getUTCSeconds :: "jsdate \<Rightarrow> int option" where
  "getUTCSeconds = utcField SecFromTime"

definition getFullYear :: "timezone \<Rightarrow> jsdate \<Rightarrow> int option" where
  "getFullYear tz = localField tz YearFromTime"

definition getMonth :: "timezone \<Rightarrow> jsdate \<Rightarrow> int option" where
  "getMonth tz = localField tz MonthFromTime"

definition getDate :: "timezone \<Rightarrow> jsdate \<Rightarrow> int option" where
  "getDate tz = localField tz DateFromTime"

definition getHours :: "timezone \<Rightarrow> jsdate \<Rightarrow> int option" where
  "getHours tz = localField tz HourFromTime"

definition getMinutes :: "timezone \<Rightarrow> jsdate \<Rightarrow> int option" where
  "getMinutes tz = localField tz MinFromTime"

definition getSeconds :: "timezone \<Rightarrow> jsdate \<Rightarrow> int option" where
  "getSeconds tz = localField tz SecFromTime"

text \<open>\<open>x + 1\<close> and \<open>x - 1\<close> on a Number: NaN stays NaN.\<close>

definition num_add :: "int option \<Rightarrow> int \<Rightarrow> int option" where
  "num_add x n = map_option (\<lambda>i. i + n) x"

subsection \<open>\<open>parseIcalDateTime\<close> and \<open>formatToIcalDateTime\<close>\<close>

text \<open>
  The argument is \<open>string | undefined\<close> and the result \<open>Date | undefined\<close>; \<open>None\<close> is
  \<open>undefined\<close>. \<open>!dateTimeStr\<close> holds for \<open>undefined\<close> and for the empty string.
\<close>

definition parseIcalDateTime :: "timezone \<Rightarrow> jsstring option \<Rightarrow> jsdate option" where
  "parseIcalDateTime tz dateTimeStr =
     (case dateTimeStr of
        None \<Rightarrow> None
      | Some s \<Rightarrow>
          if s = [] then None
          else
            (let year = parseInt (slice 0 4 s);
                 month = num_add (parseInt (slice 4 6 s)) (- 1);
                 day = parseInt (slice 6 8 s);
                 hasTime = (length s > 8 \<and> s ! 8 = 0x54);
                 hours = (if hasTime then parseInt (slice 9 11 s) else Some 0);
                 minutes = (if hasTime then parseInt (slice 11 13 s) else Some 0);
                 seconds = (if hasTime then parseInt (slice 13 15 s) else Some 0)
             in if endsWith s (lit ''Z'')
                then Some (Date_UTC year month day hours minutes seconds)
                else Some (Date_local tz year month day hours minutes seconds)))"

definition formatToIcalDateTime :: "timezone \<Rightarrow> jsdate \<Rightarrow> bool \<Rightarrow> jsstring" where
  "formatToIcalDateTime tz date timezone =
     (if timezone then
        (numberToString (getFullYear tz date)
         @ padStart 2 0x30 (numberToString (num_add (getMonth tz date) 1))
         @ padStart 2 0x30 (numberToString (getDate tz date)))
        @ lit ''T''
        @ padStart 2 0x30 (numberToString (getHours tz date))
        @ padStart 2 0x30 (numberToString (getMinutes tz date))
        @ padStart 2 0x30 (numberToString (getSeconds tz date))
      else
        (numberToString (getUTCFullYear date)
         @ padStart 2 0x30 (numberToString (num_add (getUTCMonth date) 1))
         @ padStart 2 0x30 (numberToString (getUTCDate date)))
        @ lit ''T''
        @ padStart 2 0x30 (numberToString (getUTCHours date))
        @ padStart 2 0x30 (numberToString (getUTCMinutes date))
        @ padStart 2 0x30 (numberToString (getUTCSeconds date))
        @ lit ''Z'')"

section \<open>Event and PropertyRecord mapping\<close>

text \<open>
  \<open>InvalidRecord\<close> is \<open>new Error("Invalid iCal object")\<close>; \<open>TypeError\<close> is what the
  engine throws when a getter of \<open>Date\<close> is called on a value that is not a \<open>Date\<close>.
\<close>

datatype error = InvalidRecord | TypeError

definition str_arg :: "jsval \<Rightarrow> jsstring option" where
  "str_arg v = (case v of VStr s \<Rightarrow> Some s | _ \<Rightarrow> None)"

definition date_result :: "jsdate option \<Rightarrow> jsval" where
  "date_result d = (case d of Some x \<Rightarrow> VDate x | None \<Rightarrow> VUndefined)"

definition icalNames :: "jsstring list" where
  "icalNames = [lit ''UID'', lit ''SUMMARY'', lit ''DTSTART'', lit ''DTEND'',
                lit ''LOCATION'', lit ''DESCRIPTION'']"

definition eventNames :: "jsstring list" where
  "eventNames = [lit ''id'', lit ''summary'', lit ''start'', lit ''end'',
                 lit ''location'', lit ''description'']"

text \<open>The body of the loop \<open>for (const key in icalObj)\<close>.\<close>

definition copyIcalProperty :: "jsobject \<Rightarrow> jsobject \<Rightarrow> jsstring \<Rightarrow> jsobject" where
  "copyIcalProperty icalObj event key =
     (if key \<notin> set icalNames then obj_set event key (obj_get icalObj key) else event)"

definition mapIcalObjectToEvent :: "timezone \<Rightarrow> jsobject \<Rightarrow> error + jsobject" where
  "mapIcalObjectToEvent tz icalObj =
     (if \<not> is_string (obj_get icalObj (lit ''UID''))
         \<or> \<not> is_string (obj_get icalObj (lit ''SUMMARY''))
         \<or> \<not> is_string (obj_get icalObj (lit ''DTSTART''))
         \<or> \<not> is_string (obj_get icalObj (lit ''DTEND''))
         \<or> (obj_get icalObj (lit ''LOCATION'') \<noteq> VUndefined
              \<and> \<not> is_string (obj_get icalObj (lit ''LOCATION'')))
         \<or> (obj_get icalObj (lit ''DESCRIPTION'') \<noteq> VUndefined
              \<and> \<not> is_string (obj_get icalObj (lit ''DESCRIPTION'')))
      then Inl InvalidRecord
      else
        (let event0 = [];
             event1 = obj_set event0 (lit ''id'') (obj_get icalObj (lit ''UID''));
             event2 = obj_set event1 (lit ''summary'') (obj_get icalObj (lit ''SUMMARY''));
             event3 = obj_set event2 (lit ''start'')
                        (date_result (parseIcalDateTime tz
                           (str_arg (obj_get icalObj (lit ''DTSTART'')))));
             event4 = obj_set event3 (lit ''end'')
                        (date_result (parseIcalDateTime tz
                           (str_arg (obj_get icalObj (lit ''DTEND'')))));
             event5 = (if truthy (obj_get icalObj (lit ''LOCATION''))
                       then obj_set event4 (lit ''location'') (obj_get icalObj (lit ''LOCATION''))
                       else event4);
             event6 = (if truthy (obj_get icalObj (lit ''DESCRIPTION''))
                       then obj_set event5 (lit ''description'')
                              (obj_get icalObj (lit ''DESCRIPTION''))
                       else event5)
         in Inr (foldl (copyIcalProperty icalObj) event6 (map fst icalObj))))"

text \<open>
  The body of the loop \<open>for (const key in event)\<close>. \<open>toUpperCase\<close> is the upper-casing
  of the engine (the Unicode case mapping), a parameter here.
\<close>

definition copyEventProperty ::
  "(jsstring \<Rightarrow> jsstring) \<Rightarrow> jsobject \<Rightarrow> jsobject \<Rightarrow> jsstring \<Rightarrow> jsobject" where
  "copyEventProperty toUpperCase event icalObj key =
     (if key \<notin> set eventNames then obj_set icalObj (toUpperCase key) (obj_get event key)
      else icalObj)"

text \<open>
  \<open>formatToIcalDateTime(event.start)\<close>: the field is a \<open>Date\<close> by its type; on any other
  value the call of the getter throws.
\<close>

definition formatDateField :: "timezone \<Rightarrow> jsval \<Rightarrow> error + jsstring" where
  "formatDateField tz v =
     (case v of VDate d \<Rightarrow> Inr (formatToIcalDateTime tz d False) | _ \<Rightarrow> Inl TypeError)"

definition mapEventToIcalObject ::
  "timezone \<Rightarrow> (jsstring \<Rightarrow> jsstring) \<Rightarrow> jsobject \<Rightarrow> error + jsobject" where
  "mapEventToIcalObject tz toUpperCase event =
     (let icalObj0 = [];
          icalObj1 = (if truthy (obj_get event (lit ''id''))
                      then obj_set icalObj0 (lit ''UID'') (obj_get event (lit ''id''))
                      else icalObj0);
          icalObj2 = obj_set icalObj1 (lit ''SUMMARY'') (obj_get event (lit ''summary''))
      in case formatDateField tz (obj_get event (lit ''start'')) of
           Inl e \<Rightarrow> Inl e
         | Inr dtstart \<Rightarrow>
             (let icalObj3 = obj_set icalObj2 (lit ''DTSTART'') (VStr dtstart)
              in case formatDateField tz (obj_get event (lit ''end'')) of
                   Inl e \<Rightarrow> Inl e
                 | Inr dtend \<Rightarrow>
                     (let icalObj4 = obj_set icalObj3 (lit ''DTEND'') (VStr dtend);
                          icalObj5 = (if truthy (obj_get event (lit ''location''))
                                      then obj_set icalObj4 (lit ''LOCATION'')
                                             (obj_get event (lit ''location''))
                                      else icalObj4);
                          icalObj6 = (if truthy (obj_get event (lit ''description''))
                                      then obj_set icalObj5 (lit ''DESCRIPTION'')
                                             (obj_get event (lit ''description''))
                                      else icalObj5)
                      in Inr (foldl (copyEventProperty toUpperCase event) icalObj6
                                (map fst event)))))"

text \<open>Upper-casing on ASCII text, where \<open>toUpperCase\<close> only changes the letters a to z.\<close>

definition asciiUpperCase :: "jsstring \<Rightarrow> jsstring" where
  "asciiUpperCase s = map (\<lambda>c. if 0x61 \<le> c \<and> c \<le> 0x7A then c - 0x20 else c) s"

section \<open>Auxiliary definitions for the statements\<close>

text \<open>
  The blocks \<open>icalToWebDav\<close> has collected after the lines \<open>lines\<close>, the final flush
  included: its result is these blocks joined by newlines.
\<close>

definition icalToWebDav_blocks :: "jsstring list \<Rightarrow> jsstring list" where
  "icalToWebDav_blocks lines =
     (let (webDavLines, currentLine) = foldl icalToWebDav_step ([], None) lines
      in if str_truthy currentLine then webDavLines @ [the currentLine] else webDavLines)"

text \<open>A host whose local time is UTC.\<close>

definition utcZone :: timezone where
  "utcZone = \<lparr>offsetOfUTC = (\<lambda>t. 0), offsetOfLocal = (\<lambda>t. 0)\<rparr>"

text \<open>
  The test of \<open>mapIcalObjectToEvent\<close> that throws: one of \<open>UID\<close>, \<open>SUMMARY\<close>,
  \<open>DTSTART\<close>, \<open>DTEND\<close> is missing or not a string, or \<open>LOCATION\<close> or \<open>DESCRIPTION\<close>
  reads as a value that is neither \<open>undefined\<close> nor a string.
\<close>

definition invalidRecord :: "jsobject \<Rightarrow> bool" where
  "invalidRecord icalObj =
     (list_ex (\<lambda>k. \<not> is_string (obj_get icalObj k))
        [lit ''UID'', lit ''SUMMARY'', lit ''DTSTART'', lit ''DTEND'']
      \<or> list_ex (\<lambda>k. obj_get icalObj k \<noteq> VUndefined \<and> \<not> is_string (obj_get icalObj k))
           [lit ''LOCATION'', lit ''DESCRIPTION''])"

text \<open>
  The order in which an object enumerates its keys: a key that is an array index comes
  before every key that is not, and array indices ascend. Every object has its keys in
  this order, and has each key once.
\<close>

definition precedes :: "jsstring \<Rightarrow> jsstring \<Rightarrow> bool" where
  "precedes k k' =
     (case arrayIndex k' of
        Some j \<Rightarrow> (case arrayIndex k of Some i \<Rightarrow> i < j | None \<Rightarrow> False)
      | None \<Rightarrow> True)"

definition enumerationOrder :: "jsstring list \<Rightarrow> bool" where
  "enumerationOrder ks = sorted_wrt precedes ks"

text \<open>
  The entries that survive \<open>icalToString\<close> followed by \<open>parseIcal\<close>: key and value are
  non-empty strings that \<open>trim\<close> leaves alone and that hold no newline, the key holds
  no colon and is not \<open>__proto__\<close>, and the line \<open>key:value\<close> starts with neither
  marker.
\<close>

fun plainEntry :: "jsstring \<times> jsval \<Rightarrow> bool" where
  "plainEntry (k, VStr s) =
     (k \<noteq> [] \<and> s \<noteq> [] \<and> trim k = k \<and> trim s = s
      \<and> COLON \<notin> set k \<and> NL \<notin> set k \<and> NL \<notin> set s
      \<and> k \<noteq> lit ''__proto__''
      \<and> \<not> startsWith (k @ [COLON] @ s) BEGIN_VEVENT
      \<and> \<not> startsWith (k @ [COLON] @ s) END_VEVENT)"
| "plainEntry (k, v) = False"

definition plainRecord :: "jsobject \<Rightarrow> bool" where
  "plainRecord r =
     (distinct (map fst r) \<and> enumerationOrder (map fst r) \<and> list_all plainEntry r)"

text \<open>
  The lines \<open>icalToString\<close> writes for one entry and for one record of plain entries.
\<close>

definition entryLine :: "(jsval \<Rightarrow> jsstring) \<Rightarrow> jsstring \<times> jsval \<Rightarrow> jsstring" where
  "entryLine tostr kv = fst kv @ [COLON] @ template tostr (snd kv)"

definition recordLines :: "(jsval \<Rightarrow> jsstring) \<Rightarrow> jsobject \<Rightarrow> jsstring list" where
  "recordLines tostr r = BEGIN_VEVENT # map (entryLine tostr) r @ [END_VEVENT]"

text \<open>
  Where every value is a string the conversion of the other values is never called;
  \<open>noConversion\<close> stands for it there.
\<close>

definition noConversion :: "jsval \<Rightarrow> jsstring" where
  "noConversion v = []"

text \<open>
  The fields of an Event that are not among its six named fields, in enumeration order.
\<close>

definition customKeys :: "jsobject \<Rightarrow> jsstring list" where
  "customKeys event = filter (\<lambda>k. k \<notin> set eventNames) (map fst event)"

text \<open>
  What the type \<open>Event\<close> says of the optional string fields, and the ids that
  \<open>mapEventToIcalObject\<close> emits.
\<close>

fun nonEmptyString :: "jsval \<Rightarrow> bool" where
  "nonEmptyString (VStr s) = (s \<noteq> [])"
| "nonEmptyString v = False"

fun optionalString :: "jsval \<Rightarrow> bool" where
  "optionalString VUndefined = True"
| "optionalString (VStr s) = True"
| "optionalString v = False"

text \<open>
  The custom field names of an Event that the two mappings carry through: their
  upper-cased forms differ from each other, from the six names of the record, from the
  six names of the Event and from \<open>__proto__\<close>.
\<close>

definition roundTripNames :: "(jsstring \<Rightarrow> jsstring) \<Rightarrow> jsobject \<Rightarrow> bool" where
  "roundTripNames toUpperCase event =
     (list_all (\<lambda>k. toUpperCase k \<notin> set icalNames \<and> toUpperCase k \<notin> set eventNames
                    \<and> toUpperCase k \<noteq> lit ''__proto__'') (customKeys event)
      \<and> distinct (map toUpperCase (customKeys event)))"

text \<open>
  The instants that \<open>formatToIcalDateTime\<close> followed by \<open>parseIcalDateTime\<close> gives
  back: valid dates on a whole second whose UTC year has four digits.
\<close>

fun exactDate :: "jsval \<Rightarrow> bool" where
  "exactDate (VDate (TimeValue t)) =
     (t mod 1000 = 0 \<and> 1000 \<le> YearFromTime t \<and> YearFromTime t \<le> 9999)"
| "exactDate v = False"

definition roundTripEvent :: "(jsstring \<Rightarrow> jsstring) \<Rightarrow> jsobject \<Rightarrow> bool" where
  "roundTripEvent toUpperCase event =
     (nonEmptyString (obj_get event (lit ''id''))
      \<and> is_string (obj_get event (lit ''summary''))
      \<and> exactDate (obj_get event (lit ''start''))
      \<and> exactDate (obj_get event (lit ''end''))
      \<and> optionalString (obj_get event (lit ''location''))
      \<and> optionalString (obj_get event (lit ''description''))
      \<and> roundTripNames toUpperCase event)"

text \<open>An Event in the manner of the tests of the repository.\<close>

definition exampleEvent :: jsobject where
  "exampleEvent =
     [(lit ''id'', VStr (lit ''event1@example.com'')),
      (lit ''summary'', VStr (lit ''Test Event'')),
      (lit ''start'', VDate (TimeValue 1672567200000)),
      (lit ''end'', VDate (TimeValue 1672570800000)),
      (lit ''location'', VStr (lit ''Conference Room'')),
      (lit ''customField'', VStr (lit ''value1''))]"

section \<open>Facts about strings\<close>

lemma split_not_Nil [simp]: "split sep s \<noteq> []"
  by (induction s) (auto split: list.splits)

lemma split_append_sep: "split sep (s @ sep # t) = split sep s @ split sep t"
  by (induction s) (auto split: list.splits)

lemma join_Cons: "join sep (x # xs) = (if xs = [] then x else x @ sep @ join sep xs)"
  by (cases xs) simp_all

lemma split_no_sep: "sep \<notin> set s \<Longrightarrow> split sep s = [s]"
  by (induction s) auto

lemma join_split: "join [sep] (split sep s) = s"
proof (induction s)
  case Nil
  then show ?case by simp
next
  case (Cons c s)
  show ?case
  proof (cases "c = sep")
    case True
    then show ?thesis using Cons by (simp add: join_Cons)
  next
    case False
    obtain p ps where sp: "split sep s = p # ps"
      by (cases "split sep s") simp_all
    with Cons have "join [sep] (p # ps) = s" by simp
    then show ?thesis using False sp by (auto simp: join_Cons split: if_splits)
  qed
qed

lemma split_join:
  "ls \<noteq> [] \<Longrightarrow> \<forall>l\<in>set ls. sep \<notin> set l \<Longrightarrow> split sep (join [sep] ls) = ls"
proof (induction ls)
  case Nil
  then show ?case by simp
next
  case (Cons l ls)
  show ?case
  proof (cases "ls = []")
    case True
    then show ?thesis using Cons.prems by (simp add: split_no_sep)
  next
    case False
    then have "split sep (join [sep] ls) = ls" using Cons by simp
    then show ?thesis using False Cons.prems
      by (simp add: join_Cons split_append_sep split_no_sep)
  qed
qed

lemma BEGIN_VEVENT_not_Nil: "startsWith l BEGIN_VEVENT \<Longrightarrow> l \<noteq> []"
  by (auto simp: startsWith_def BEGIN_VEVENT_def lit_def)

lemma markers_disjoint: "startsWith l BEGIN_VEVENT \<Longrightarrow> \<not> startsWith l END_VEVENT"
  by (cases l) (auto simp: startsWith_def BEGIN_VEVENT_def END_VEVENT_def lit_def)

lemma lit_char_inj:
  "(of_nat (of_char c) :: 16 word) = of_nat (of_char d) \<longleftrightarrow> c = d"
proof -
  have le: "(256::nat) \<le> 2 ^ 16" by simp
  have "(of_char c :: nat) < 256" by simp
  then have c: "(of_char c :: nat) < 2 ^ 16" using le by (rule less_le_trans)
  have "(of_char d :: nat) < 256" by simp
  then have d: "(of_char d :: nat) < 2 ^ 16" using le by (rule less_le_trans)
  have "(of_nat (of_char c) :: 16 word) = of_nat (of_char d)
        \<longleftrightarrow> (of_char c :: nat) = of_char d"
    using c d by (simp add: word_of_nat_eq_iff take_bit_nat_eq_self)
  then show ?thesis by simp
qed

lemma lit_eq_iff [simp]: "lit a = lit b \<longleftrightarrow> a = b"
proof (induction a arbitrary: b)
  case Nil
  then show ?case by (cases b) (simp_all add: lit_def)
next
  case (Cons c a)
  then show ?case by (cases b) (simp_all add: lit_def lit_char_inj)
qed


lemma lit_eq_Nil [simp]: "lit a = [] \<longleftrightarrow> a = []"
  by (simp add: lit_def)

lemmas string_eval = lit_def NL_def COLON_def BEGIN_VEVENT_def END_VEVENT_def startsWith_def
  endsWith_def trim_def isWhiteSpace_def isDigit_def digitsValue_def

lemmas object_eval = obj_get_def obj_set_def arrayIndex_def

lemmas codec_eval = parseIcal_def icalToString_def icalToString_event_def
  icalToString_entry_def template_def

lemmas date_eval = formatToIcalDateTime_def numberToString_def padStart_def getUTCFullYear_def
  getUTCMonth_def getUTCDate_def getUTCHours_def getUTCMinutes_def getUTCSeconds_def
  getFullYear_def getMonth_def getDate_def getHours_def getMinutes_def getSeconds_def
  num_add_def YearFromTime_def YearFromDay_def DayFromYear_def Day_def msPerDay_def
  MonthFromTime_def DateFromTime_def HourFromTime_def MinFromTime_def SecFromTime_def
  DayWithinYear_def InLeapYear_def DaysInYear_def DaysBeforeMonth_def natToString.simps
  digitChar_def
  parseIcalDateTime_def parseInt_def slice_def Date_UTC_def Date_local_def MakeFullDate_def
  MakeDate_def MakeDay_def MakeTime_def TimeClip_def utcZone_def

lemmas map_eval = mapIcalObjectToEvent_def mapEventToIcalObject_def copyIcalProperty_def
  copyEventProperty_def icalNames_def eventNames_def str_arg_def date_result_def
  formatDateField_def invalidRecord_def asciiUpperCase_def

section \<open>Facts about objects\<close>

lemma map_of_obj_update:
  "map_of (obj_update k v obj) k' =
     (if k' = k then map_option (\<lambda>_. v) (map_of obj k) else map_of obj k')"
  by (induction obj) auto

lemma map_of_obj_insert_index:
  "map_of obj k = None \<Longrightarrow> map_of (obj_insert_index i k v obj) = (map_of obj)(k \<mapsto> v)"
  by (induction obj) (auto simp: fun_eq_iff split: option.splits if_splits)

lemma map_of_snoc:
  "map_of obj k = None \<Longrightarrow> map_of (obj @ [(k, v)]) = (map_of obj)(k \<mapsto> v)"
  by (induction obj) (auto simp: fun_eq_iff split: if_splits)

lemma map_of_obj_set:
  "k \<noteq> lit ''__proto__'' \<Longrightarrow> map_of (obj_set obj k v) = (map_of obj)(k \<mapsto> v)"
proof (cases "map_of obj k")
  case None
  assume k: "k \<noteq> lit ''__proto__''"
  from None have "k \<notin> set (map fst obj)"
    by (simp add: map_of_eq_None_iff)
  then have "obj_set obj k v =
     (case arrayIndex k of Some i \<Rightarrow> obj_insert_index i k v obj | None \<Rightarrow> obj @ [(k, v)])"
    using k by (simp add: obj_set_def)
  then show ?thesis
    using None map_of_obj_insert_index [OF None] map_of_snoc [OF None]
    by (simp split: option.splits)
next
  case (Some w)
  assume k: "k \<noteq> lit ''__proto__''"
  from Some have "k \<in> set (map fst obj)"
    by (metis map_of_eq_None_iff option.distinct(1) set_map)
  then have "obj_set obj k v = obj_update k v obj"
    using k by (simp add: obj_set_def)
  then show ?thesis
    using Some by (simp add: fun_eq_iff map_of_obj_update)
qed

lemma obj_get_obj_set:
  "obj_get (obj_set obj k v) k' =
     (if k' = k \<and> k \<noteq> lit ''__proto__'' then v else obj_get obj k')"
proof (cases "k = lit ''__proto__''")
  case True
  then show ?thesis by (simp add: obj_set_def)
next
  case False
  then show ?thesis by (simp add: obj_get_def map_of_obj_set)
qed

lemma keys_obj_update: "map fst (obj_update k v obj) = map fst obj"
  by (induction obj) auto

lemma keys_obj_insert_index:
  "fst ` set (obj_insert_index i k v obj) = insert k (fst ` set obj)"
proof (induction obj)
  case Nil
  then show ?case by simp
next
  case (Cons p obj)
  obtain k' v' where p: "p = (k', v')" by (cases p)
  show ?case using Cons.IH unfolding p
    by (cases "arrayIndex k'") (simp_all add: insert_commute)
qed

lemma keys_obj_set:
  "fst ` set (obj_set obj k v) =
     (if k = lit ''__proto__'' then fst ` set obj else insert k (fst ` set obj))"
proof -
  have "fst ` set (obj_update k v obj) = fst ` set obj"
    using keys_obj_update [of k v obj] by (metis set_map)
  then show ?thesis
    by (auto simp: obj_set_def keys_obj_insert_index split: option.splits)
qed

lemma obj_get_copyIcalProperty_other:
  "k \<notin> set ks \<Longrightarrow> obj_get (foldl (copyIcalProperty icalObj) event ks) k = obj_get event k"
  by (induction ks arbitrary: event) (auto simp: copyIcalProperty_def obj_get_obj_set)


lemma obj_insert_index_last:
  "\<forall>k'\<in>set (map fst obj). \<exists>j. arrayIndex k' = Some j \<and> j < i \<Longrightarrow>
   obj_insert_index i k v obj = obj @ [(k, v)]"
  by (induction obj) auto

lemma obj_set_last:
  assumes "k \<noteq> lit ''__proto__''" and "k \<notin> set (map fst obj)"
    and "\<forall>k'\<in>set (map fst obj). precedes k' k"
  shows "obj_set obj k v = obj @ [(k, v)]"
proof (cases "arrayIndex k")
  case None
  then show ?thesis using assms by (simp add: obj_set_def)
next
  case (Some i)
  then have "\<forall>k'\<in>set (map fst obj). \<exists>j. arrayIndex k' = Some j \<and> j < i"
    using assms(3) by (auto simp: precedes_def split: option.splits)
  then have "obj_insert_index i k v obj = obj @ [(k, v)]"
    by (rule obj_insert_index_last)
  then show ?thesis using assms Some by (simp add: obj_set_def)
qed

lemma build_object:
  "distinct (map fst r) \<Longrightarrow> enumerationOrder (map fst r) \<Longrightarrow>
   lit ''__proto__'' \<notin> set (map fst r) \<Longrightarrow>
   foldl (\<lambda>obj kv. obj_set obj (fst kv) (snd kv)) [] r = r"
proof (induction r rule: rev_induct)
  case Nil
  then show ?case by simp
next
  case (snoc kv r)
  have r: "foldl (\<lambda>obj kv. obj_set obj (fst kv) (snd kv)) [] r = r"
    using snoc by (simp add: enumerationOrder_def sorted_wrt_append)
  have "obj_set r (fst kv) (snd kv) = r @ [(fst kv, snd kv)]"
    using snoc.prems by (intro obj_set_last) (auto simp: enumerationOrder_def sorted_wrt_append)
  then show ?case using r by simp
qed

section \<open>Properties of the Block Extractor\<close>

text \<open>
  C10. \<open>icalToWebDav\<close> never looks at its second argument: for one input text, any two
  values of \<open>baseUrl\<close> give the same output.
\<close>

theorem icalToWebDav_baseUrl_irrelevant:
  "icalToWebDav icalData baseUrl1 = icalToWebDav icalData baseUrl2"
  by (simp add: icalToWebDav_def)

lemma icalToWebDav_body:
  "c \<noteq> [] \<Longrightarrow> \<forall>l\<in>set body. \<not> startsWith l BEGIN_VEVENT \<and> \<not> startsWith l END_VEVENT \<Longrightarrow>
   foldl icalToWebDav_step (out, Some c) body = (out, Some (join [NL] (c # body)))"
proof (induction body arbitrary: c)
  case Nil
  then show ?case by simp
next
  case (Cons l ls)
  have "foldl icalToWebDav_step (out, Some c) (l # ls)
        = foldl icalToWebDav_step (out, Some (c @ [NL] @ l)) ls"
    using Cons.prems by simp
  also have "\<dots> = (out, Some (join [NL] ((c @ [NL] @ l) # ls)))"
    using Cons.prems by (intro Cons.IH) auto
  finally show ?case by (simp add: join_Cons)
qed

text \<open>
  C4. When the input ends while a block is open, the block is still emitted. Let the
  lines of the input be \<open>pre\<close>, then a line \<open>b\<close> that starts with \<open>BEGIN:VEVENT\<close>, then
  lines \<open>body\<close> of which none starts with \<open>BEGIN:VEVENT\<close> or \<open>END:VEVENT\<close> (so the
  block opened by \<open>b\<close> is open at the end of the input). Then the output is the blocks
  of \<open>pre\<close> followed by one last block, which is \<open>b\<close> and the lines of \<open>body\<close>
  verbatim, joined by newlines.
\<close>

theorem icalToWebDav_flushes_open_block:
  assumes "split NL icalData = pre @ b # body"
    and "startsWith b BEGIN_VEVENT"
    and "\<forall>l\<in>set body. \<not> startsWith l BEGIN_VEVENT \<and> \<not> startsWith l END_VEVENT"
  shows "icalToWebDav icalData baseUrl
         = join [NL] (icalToWebDav_blocks pre @ [join [NL] (b # body)])"
proof -
  obtain out cur where st: "foldl icalToWebDav_step ([], None) pre = (out, cur)"
    by (cases "foldl icalToWebDav_step ([], None) pre")
  let ?out = "if str_truthy cur then out @ [the cur] else out"
  have b: "b \<noteq> []" using assms(2) by (rule BEGIN_VEVENT_not_Nil)
  have "foldl icalToWebDav_step ([], None) (pre @ b # body)
        = foldl icalToWebDav_step (?out, Some b) body"
    using st assms(2) by simp
  also have "\<dots> = (?out, Some (join [NL] (b # body)))"
    using b assms(3) by (rule icalToWebDav_body)
  finally have "foldl icalToWebDav_step ([], None) (split NL icalData)
                = (?out, Some (join [NL] (b # body)))"
    by (simp add: assms(1))
  moreover have "join [NL] (b # body) \<noteq> []"
    using b by (simp add: join_Cons)
  moreover have "icalToWebDav_blocks pre = ?out"
    by (simp add: icalToWebDav_blocks_def st)
  ultimately show ?thesis
    by (simp add: icalToWebDav_def)
qed

theorem icalToWebDav_flushes_open_block_witness:
  "icalToWebDav (lit ''VERSION:2.0'' @ [NL] @ lit ''BEGIN:VEVENT'' @ [NL]
                 @ lit ''SUMMARY:Incomplete'') []
   = lit ''BEGIN:VEVENT'' @ [NL] @ lit ''SUMMARY:Incomplete''"
proof -
  have 1: "split NL (lit ''VERSION:2.0'' @ [NL] @ lit ''BEGIN:VEVENT'' @ [NL]
                     @ lit ''SUMMARY:Incomplete'')
           = [lit ''VERSION:2.0''] @ lit ''BEGIN:VEVENT'' # [lit ''SUMMARY:Incomplete'']"
    by (simp add: lit_def NL_def)
  have 2: "startsWith (lit ''BEGIN:VEVENT'') BEGIN_VEVENT"
    by (simp add: string_eval)
  have 3: "\<forall>l\<in>set [lit ''SUMMARY:Incomplete''].
             \<not> startsWith l BEGIN_VEVENT \<and> \<not> startsWith l END_VEVENT"
    by (simp add: string_eval)
  have 4: "icalToWebDav_blocks [lit ''VERSION:2.0''] = []"
    by (simp add: icalToWebDav_blocks_def string_eval)
  show ?thesis
    using icalToWebDav_flushes_open_block [OF 1 2 3, of "[]"] by (simp add: 4)
qed

section \<open>The paired functions\<close>

lemma webDavToIcal_step_eq: "webDavToIcal_step = icalToWebDav_step"
  by (intro ext) (auto simp: fun_eq_iff)

lemma parseWebDav_step_eq: "parseWebDav_step = parseIcal_step"
  by (intro ext) (auto simp: fun_eq_iff)

lemma webDavToString_entry_eq: "webDavToString_entry = icalToString_entry"
  by (intro ext) (simp add: webDavToString_entry_def icalToString_entry_def)

lemma webDavToString_event_eq: "webDavToString_event = icalToString_event"
  by (intro ext)
     (simp add: webDavToString_event_def icalToString_event_def webDavToString_entry_eq)

text \<open>
  C8. The paired functions are extensionally equal: \<open>icalToWebDav(s, baseUrl)\<close> and
  \<open>webDavToIcal(s)\<close> for every text and every \<open>baseUrl\<close>, \<open>parseIcal(s)\<close> and
  \<open>parseWebDav(s)\<close> for every text, \<open>icalToString(r)\<close> and \<open>webDavToString(r)\<close> for
  every list of records (whatever the engine prints for values that are not strings).
\<close>

theorem paired_functions_equal:
  "icalToWebDav s baseUrl = webDavToIcal s \<and> parseIcal s = parseWebDav s
   \<and> icalToString tostr r = webDavToString tostr r"
  by (simp add: icalToWebDav_def webDavToIcal_def webDavToIcal_step_eq
      parseIcal_def parseWebDav_def parseWebDav_step_eq
      icalToString_def webDavToString_def webDavToString_event_eq)

section \<open>Properties of the scan of \<open>parseIcal\<close>\<close>

lemma parseIcal_step_no_END:
  "\<not> startsWith l END_VEVENT \<Longrightarrow> fst (parseIcal_step (events, cur) l) = events"
  by (auto simp: Let_def split: option.splits)

lemma parseIcal_fold_no_END:
  "\<forall>l\<in>set ls. \<not> startsWith l END_VEVENT \<Longrightarrow>
   fst (foldl parseIcal_step (events, cur) ls) = events"
proof (induction ls arbitrary: cur)
  case Nil
  then show ?case by simp
next
  case (Cons l ls)
  obtain cur' where "parseIcal_step (events, cur) l = (events, cur')"
    using parseIcal_step_no_END [of l events cur] Cons.prems
    by (cases "parseIcal_step (events, cur) l") auto
  then show ?case using Cons by simp
qed

lemma parseIcal_fold_length:
  "length (fst (foldl parseIcal_step (events, cur) ls))
   \<le> length events + length (filter (\<lambda>l. startsWith l END_VEVENT) ls)"
proof (induction ls arbitrary: events cur)
  case Nil
  then show ?case by simp
next
  case (Cons l ls)
  obtain ev' cur' where st: "parseIcal_step (events, cur) l = (ev', cur')"
    by (cases "parseIcal_step (events, cur) l")
  have "length ev' \<le> length events + (if startsWith l END_VEVENT then 1 else 0)"
    using st by (auto simp: Let_def split: option.splits if_splits)
  moreover have "length (fst (foldl parseIcal_step (ev', cur') ls))
     \<le> length ev' + length (filter (\<lambda>l. startsWith l END_VEVENT) ls)"
    by (rule Cons.IH)
  ultimately show ?case using st
    by (auto simp del: parseIcal_step.simps split: if_splits)
qed

text \<open>
  C9. A record that is still open when the input ends is discarded. Whatever follows
  the last line that starts with \<open>END:VEVENT\<close> adds nothing to the result: if no line of
  \<open>t\<close> starts with \<open>END:VEVENT\<close>, parsing \<open>s\<close>, a newline and \<open>t\<close> gives what parsing
  \<open>s\<close> gives. And every record returned was closed by an \<open>END:VEVENT\<close> line: there
  are at most as many records as there are such lines.
\<close>

theorem parseIcal_drops_open_record:
  "((\<forall>l\<in>set (split NL t). \<not> startsWith l END_VEVENT) \<longrightarrow>
     parseIcal (s @ NL # t) = parseIcal s)
   \<and> length (parseIcal s)
       \<le> length (filter (\<lambda>l. startsWith l END_VEVENT) (split NL s))"
proof (intro conjI impI)
  assume "\<forall>l\<in>set (split NL t). \<not> startsWith l END_VEVENT"
  then show "parseIcal (s @ NL # t) = parseIcal s"
    by (cases "foldl parseIcal_step ([], None) (split NL s)")
       (simp add: parseIcal_def split_append_sep parseIcal_fold_no_END
             del: parseIcal_step.simps)
next
  show "length (parseIcal s)
        \<le> length (filter (\<lambda>l. startsWith l END_VEVENT) (split NL s))"
    using parseIcal_fold_length [of "[]" None "split NL s"] by (simp add: parseIcal_def)
qed

theorem parseIcal_drops_open_record_witness:
  "parseIcal (lit ''BEGIN:VEVENT'' @ [NL] @ lit ''A:1'' @ [NL] @ lit ''END:VEVENT'' @ [NL]
              @ lit ''BEGIN:VEVENT'' @ [NL] @ lit ''B:2'')
   = [[(lit ''A'', VStr (lit ''1''))]]"
proof -
  have 1: "\<forall>l\<in>set (split NL (lit ''BEGIN:VEVENT'' @ [NL] @ lit ''B:2'')).
             \<not> startsWith l END_VEVENT"
    by (simp add: string_eval)
  have 2: "parseIcal (lit ''BEGIN:VEVENT'' @ [NL] @ lit ''A:1'' @ [NL] @ lit ''END:VEVENT'')
           = [[(lit ''A'', VStr (lit ''1''))]]"
    by (simp add: parseIcal_def string_eval object_eval)
  show ?thesis
    using parseIcal_drops_open_record [of "lit ''BEGIN:VEVENT'' @ [NL] @ lit ''B:2''"
        "lit ''BEGIN:VEVENT'' @ [NL] @ lit ''A:1'' @ [NL] @ lit ''END:VEVENT''"] 1 2
    by simp
qed

text \<open>
  C2. The claim: a \<open>BEGIN:VEVENT\<close> line met while a record is open flushes the open
  record, as the Block Extractor does with its open block. \<open>parseIcal\<close> does not: it
  replaces the open record by an empty one. On the input of the extractor's own test for
  nested markers the properties of the outer record are lost.
\<close>

theorem parseIcal_nested_BEGIN_drops_outer:
  "parseIcal (lit ''BEGIN:VEVENT'' @ [NL] @ lit ''SUMMARY:Outer Event'' @ [NL]
              @ lit ''BEGIN:VEVENT'' @ [NL] @ lit ''SUMMARY:Inner Event'' @ [NL]
              @ lit ''END:VEVENT'')
   = [[(lit ''SUMMARY'', VStr (lit ''Inner Event''))]]"
  by (simp add: parseIcal_def string_eval object_eval)

text \<open>
  C5. The claim: a property line is recorded if and only if its trimmed key and its
  trimmed value are both non-empty. \<open>parseIcal\<close> trims the value before the test and the
  key after it: a key of white space only passes the test and is recorded as the empty
  key.
\<close>

theorem parseIcal_records_blank_key:
  "parseIcal (lit ''BEGIN:VEVENT'' @ [NL] @ lit '' :x'' @ [NL] @ lit ''END:VEVENT'')
   = [[([], VStr (lit ''x''))]]"
  by (simp add: parseIcal_def string_eval object_eval)

section \<open>Properties of the date-time conversion\<close>

text \<open>
  C6. The claim: every numeric component is zero-padded to its fixed width, four digits
  for the year. \<open>formatToIcalDateTime\<close> pads the month, the day, the hour, the minute
  and the second with \<open>padStart(2, "0")\<close>, but prints the year with \<open>toString()\<close>
  alone. For the first instant of the year 999 (\<open>new Date(Date.UTC(999, 0, 1))\<close>, time
  value \<open>-30641760000000\<close>) the year has three digits, in the UTC rendering and, on a
  host whose local time is UTC, in the local rendering.
\<close>

theorem formatToIcalDateTime_year_not_padded:
  "formatToIcalDateTime utcZone (TimeValue (- 30641760000000)) False = lit ''9990101T000000Z''
   \<and> formatToIcalDateTime utcZone (TimeValue (- 30641760000000)) True = lit ''9990101T000000''"
  by (simp add: date_eval lit_def)


section \<open>Properties of the mapping from records to events\<close>

text \<open>
  C7, as amended. \<open>mapIcalObjectToEvent\<close> raises \<open>InvalidRecord\<close> if and only if one of
  \<open>UID\<close>, \<open>SUMMARY\<close>, \<open>DTSTART\<close>, \<open>DTEND\<close> is missing or not a string, or
  \<open>LOCATION\<close> or \<open>DESCRIPTION\<close> reads as a value that is neither \<open>undefined\<close> nor a
  string. For every other record it returns an Event; the \<open>id\<close> of the Event is the
  \<open>UID\<close> of the record provided the record has no property named \<open>id\<close>, and its
  \<open>summary\<close> is the \<open>SUMMARY\<close> of the record provided the record has no property
  named \<open>summary\<close>.
\<close>

theorem mapIcalObjectToEvent_result:
  "(mapIcalObjectToEvent tz icalObj = Inl InvalidRecord \<longleftrightarrow> invalidRecord icalObj)
   \<and> (\<not> invalidRecord icalObj \<longrightarrow>
        (\<exists>event. mapIcalObjectToEvent tz icalObj = Inr event
           \<and> (lit ''id'' \<notin> set (map fst icalObj) \<longrightarrow>
                obj_get event (lit ''id'') = obj_get icalObj (lit ''UID''))
           \<and> (lit ''summary'' \<notin> set (map fst icalObj) \<longrightarrow>
                obj_get event (lit ''summary'') = obj_get icalObj (lit ''SUMMARY''))))"
proof -
  have 1: "mapIcalObjectToEvent tz icalObj = Inl InvalidRecord" if "invalidRecord icalObj"
    using that by (auto simp: mapIcalObjectToEvent_def invalidRecord_def)
  have 2: "\<exists>event. mapIcalObjectToEvent tz icalObj = Inr event
           \<and> (lit ''id'' \<notin> set (map fst icalObj) \<longrightarrow>
                obj_get event (lit ''id'') = obj_get icalObj (lit ''UID''))
           \<and> (lit ''summary'' \<notin> set (map fst icalObj) \<longrightarrow>
                obj_get event (lit ''summary'') = obj_get icalObj (lit ''SUMMARY''))"
    if "\<not> invalidRecord icalObj"
    using that
    by (simp add: mapIcalObjectToEvent_def invalidRecord_def Let_def
        obj_get_copyIcalProperty_other obj_get_obj_set)
  show ?thesis using 1 2 by (cases "invalidRecord icalObj") auto
qed



theorem mapIcalObjectToEvent_result_witness:
  "\<not> invalidRecord
        [(lit ''SUMMARY'', VStr (lit ''Test Event'')),
         (lit ''DTSTART'', VStr (lit ''20230101T100000Z'')),
         (lit ''DTEND'', VStr (lit ''20230101T110000Z'')),
         (lit ''UID'', VStr (lit ''event1@example.com''))]
   \<and> (\<exists>event. mapIcalObjectToEvent utcZone
          [(lit ''SUMMARY'', VStr (lit ''Test Event'')),
           (lit ''DTSTART'', VStr (lit ''20230101T100000Z'')),
           (lit ''DTEND'', VStr (lit ''20230101T110000Z'')),
           (lit ''UID'', VStr (lit ''event1@example.com''))] = Inr event
        \<and> obj_get event (lit ''id'') = VStr (lit ''event1@example.com'')
        \<and> obj_get event (lit ''summary'') = VStr (lit ''Test Event''))"
proof -
  let ?r = "[(lit ''SUMMARY'', VStr (lit ''Test Event'')),
         (lit ''DTSTART'', VStr (lit ''20230101T100000Z'')),
         (lit ''DTEND'', VStr (lit ''20230101T110000Z'')),
         (lit ''UID'', VStr (lit ''event1@example.com''))]"
  have 1: "\<not> invalidRecord ?r"
    by (simp add: invalidRecord_def obj_get_def)
  have 2: "lit ''id'' \<notin> set (map fst ?r)" "lit ''summary'' \<notin> set (map fst ?r)"
    by simp_all
  have 3: "obj_get ?r (lit ''UID'') = VStr (lit ''event1@example.com'')"
    "obj_get ?r (lit ''SUMMARY'') = VStr (lit ''Test Event'')"
    by (simp_all add: obj_get_def)
  show ?thesis
    using mapIcalObjectToEvent_result [of utcZone ?r] 1 2 3 by auto
qed

text \<open>
  C7 as stated fails: a record that meets the type requirements and also has a property
  named \<open>summary\<close> is mapped to an Event whose \<open>summary\<close> is that property, not the
  value of \<open>SUMMARY\<close>, because the loop over the remaining keys copies it over the
  field set before.
\<close>

theorem mapIcalObjectToEvent_summary_counterexample:
  "\<not> invalidRecord
        [(lit ''UID'', VStr (lit ''e1'')), (lit ''SUMMARY'', VStr (lit ''S'')),
         (lit ''DTSTART'', VStr (lit ''20230101T100000Z'')),
         (lit ''DTEND'', VStr (lit ''20230101T110000Z'')),
         (lit ''summary'', VStr (lit ''other''))]
   \<and> mapIcalObjectToEvent utcZone
        [(lit ''UID'', VStr (lit ''e1'')), (lit ''SUMMARY'', VStr (lit ''S'')),
         (lit ''DTSTART'', VStr (lit ''20230101T100000Z'')),
         (lit ''DTEND'', VStr (lit ''20230101T110000Z'')),
         (lit ''summary'', VStr (lit ''other''))]
       = Inr [(lit ''id'', VStr (lit ''e1'')), (lit ''summary'', VStr (lit ''other'')),
              (lit ''start'', VDate (TimeValue 1672567200000)),
              (lit ''end'', VDate (TimeValue 1672570800000))]"
  by (simp add: map_eval object_eval date_eval string_eval del: lit_eq_iff)

section \<open>The round trip of the Record Codec\<close>

lemma icalToString_entries:
  "foldl (icalToString_entry tostr) acc r
   = acc @ map (entryLine tostr) (filter (\<lambda>kv. fst kv \<noteq> [] \<and> truthy (snd kv)) r)"
  by (induction r arbitrary: acc) (simp_all add: icalToString_entry_def entryLine_def)

lemma icalToString_events:
  "foldl (icalToString_event tostr) acc rs
   = acc @ concat (map (\<lambda>r. BEGIN_VEVENT
        # map (entryLine tostr) (filter (\<lambda>kv. fst kv \<noteq> [] \<and> truthy (snd kv)) r)
        @ [END_VEVENT]) rs)"
  by (induction rs arbitrary: acc) (simp_all add: icalToString_event_def icalToString_entries)

lemma plainEntry_cases:
  assumes "plainEntry kv"
  obtains k s where "kv = (k, VStr s)" "k \<noteq> []" "s \<noteq> []" "trim k = k" "trim s = s"
    "COLON \<notin> set k" "NL \<notin> set k" "NL \<notin> set s" "k \<noteq> lit ''__proto__''"
    "\<not> startsWith (k @ [COLON] @ s) BEGIN_VEVENT" "\<not> startsWith (k @ [COLON] @ s) END_VEVENT"
proof -
  obtain k v where kv: "kv = (k, v)" by (cases kv)
  with assms obtain s where "v = VStr s" by (cases v) auto
  with kv assms that show ?thesis by auto
qed

lemma plain_filter:
  "list_all plainEntry r \<Longrightarrow> filter (\<lambda>kv. fst kv \<noteq> [] \<and> truthy (snd kv)) r = r"
  by (induction r) (auto elim!: plainEntry_cases)

lemma plain_line:
  assumes "plainEntry kv"
  shows "parseIcal_step (events, Some ev) (entryLine tostr kv)
         = (events, Some (obj_set ev (fst kv) (snd kv)))"
    and "NL \<notin> set (entryLine tostr kv)"
proof -
  from assms obtain k s where kv: "kv = (k, VStr s)" and k: "k \<noteq> []" "trim k = k" "COLON \<notin> set k"
    "NL \<notin> set k" and s: "s \<noteq> []" "trim s = s" "NL \<notin> set s"
    and m: "\<not> startsWith (k @ [COLON] @ s) BEGIN_VEVENT" "\<not> startsWith (k @ [COLON] @ s) END_VEVENT"
    by (rule plainEntry_cases)
  have line: "entryLine tostr (k, VStr s) = k @ [COLON] @ s"
    by (simp add: entryLine_def template_def)
  have sp: "split COLON (k @ [COLON] @ s) = k # split COLON s"
    using k(3) by (simp add: split_append_sep split_no_sep)
  show "parseIcal_step (events, Some ev) (entryLine tostr kv)
         = (events, Some (obj_set ev (fst kv) (snd kv)))"
    unfolding kv line using m k s by (simp add: sp join_split del: append.simps)
  show "NL \<notin> set (entryLine tostr kv)"
    unfolding kv line using k s by (simp add: NL_def COLON_def)
qed

lemma plain_lines:
  "list_all plainEntry r \<Longrightarrow>
   foldl parseIcal_step (events, Some ev) (map (entryLine tostr) r)
   = (events, Some (foldl (\<lambda>obj kv. obj_set obj (fst kv) (snd kv)) ev r))"
  by (induction r arbitrary: ev) (simp_all add: plain_line del: parseIcal_step.simps)

lemma plain_proto: "list_all plainEntry r \<Longrightarrow> lit ''__proto__'' \<notin> set (map fst r)"
  by (induction r) (auto elim!: plainEntry_cases)

lemma parse_recordLines:
  assumes "plainRecord r"
  shows "foldl parseIcal_step (events, cur) (recordLines tostr r) = (events @ [r], None)"
proof -
  have b: "startsWith BEGIN_VEVENT BEGIN_VEVENT" by (simp add: startsWith_def)
  have e: "startsWith END_VEVENT END_VEVENT" "\<not> startsWith END_VEVENT BEGIN_VEVENT"
    by (simp_all add: string_eval del: lit_eq_iff)
  have "foldl parseIcal_step (events, cur) (recordLines tostr r)
        = parseIcal_step (foldl parseIcal_step (events, Some []) (map (entryLine tostr) r)) END_VEVENT"
    using b by (simp add: recordLines_def)
  also have "\<dots> = parseIcal_step (events, Some (foldl (\<lambda>obj kv. obj_set obj (fst kv) (snd kv)) [] r)) END_VEVENT"
    using assms by (simp only: plain_lines plainRecord_def)
  also have "\<dots> = parseIcal_step (events, Some r) END_VEVENT"
    using assms build_object [of r] plain_proto [of r]
    by (simp add: plainRecord_def del: parseIcal_step.simps)
  also have "\<dots> = (events @ [r], None)"
    using e by simp
  finally show ?thesis .
qed

lemma parse_records:
  "list_all plainRecord rs \<Longrightarrow>
   fst (foldl parseIcal_step (events, cur) (concat (map (recordLines tostr) rs))) = events @ rs"
  by (induction rs arbitrary: events cur) (simp_all add: parse_recordLines del: parseIcal_step.simps)

lemma recordLines_no_NL:
  "list_all plainEntry r \<Longrightarrow> \<forall>l\<in>set (recordLines tostr r). NL \<notin> set l"
proof -
  assume "list_all plainEntry r"
  then have "\<forall>kv\<in>set r. NL \<notin> set (entryLine tostr kv)"
    by (auto simp: list_all_iff plain_line(2))
  moreover have "NL \<notin> set BEGIN_VEVENT" "NL \<notin> set END_VEVENT"
    by (simp_all add: string_eval del: lit_eq_iff)
  ultimately show ?thesis by (auto simp: recordLines_def)
qed

text \<open>
  C1, as amended. For every list of records in which every key and every value is a
  non-empty string without leading or trailing white space and without a newline, no key
  holds a colon or is \<open>__proto__\<close>, and no entry \<open>key:value\<close> starts with
  \<open>BEGIN:VEVENT\<close> or \<open>END:VEVENT\<close>, parsing the serialized text yields the original
  list: \<open>parseIcal(icalToString(records)) == records\<close>, with the number of records, the
  keys, the values and the order of the keys preserved. (That a record has each key once
  and in enumeration order holds for every object.)
\<close>

theorem parseIcal_icalToString:
  assumes "list_all plainRecord records"
  shows "parseIcal (icalToString tostr records) = records"
proof (cases "records = []")
  case True
  then show ?thesis by (simp add: parseIcal_def icalToString_def)
next
  case False
  let ?lines = "concat (map (recordLines tostr) records)"
  have "foldl (icalToString_event tostr) [] records = ?lines"
    using assms
    by (simp add: icalToString_events recordLines_def list_all_iff plainRecord_def plain_filter
        cong: map_cong)
  then have str: "icalToString tostr records = join [NL] ?lines"
    by (simp add: icalToString_def)
  have "?lines \<noteq> []"
    using False by (cases records) (simp_all add: recordLines_def)
  moreover have "\<forall>l\<in>set ?lines. NL \<notin> set l"
    using assms recordLines_no_NL by (fastforce simp: list_all_iff plainRecord_def)
  ultimately have "split NL (icalToString tostr records) = ?lines"
    unfolding str by (rule split_join)
  then show ?thesis
    using parse_records [OF assms, of "[]" None tostr] by (simp add: parseIcal_def)
qed


theorem parseIcal_icalToString_witness:
  "list_all plainRecord
     [[(lit ''SUMMARY'', VStr (lit ''Event 1'')), (lit ''UID'', VStr (lit ''event1@example.com''))],
      [(lit ''7'', VStr (lit ''x y'')), (lit ''SUMMARY'', VStr (lit ''Event: 2''))]]
   \<and> parseIcal (icalToString noConversion
     [[(lit ''SUMMARY'', VStr (lit ''Event 1'')), (lit ''UID'', VStr (lit ''event1@example.com''))],
      [(lit ''7'', VStr (lit ''x y'')), (lit ''SUMMARY'', VStr (lit ''Event: 2''))]])
     = [[(lit ''SUMMARY'', VStr (lit ''Event 1'')), (lit ''UID'', VStr (lit ''event1@example.com''))],
        [(lit ''7'', VStr (lit ''x y'')), (lit ''SUMMARY'', VStr (lit ''Event: 2''))]]"
proof -
  let ?rs = "[[(lit ''SUMMARY'', VStr (lit ''Event 1'')), (lit ''UID'', VStr (lit ''event1@example.com''))],
      [(lit ''7'', VStr (lit ''x y'')), (lit ''SUMMARY'', VStr (lit ''Event: 2''))]]"
  have 1: "list_all plainRecord ?rs"
    by (simp add: plainRecord_def enumerationOrder_def precedes_def arrayIndex_def string_eval
        del: lit_eq_iff)
  show ?thesis
    using parseIcal_icalToString [OF 1, of noConversion] 1 by simp
qed

text \<open>
  C1 as stated fails for non-empty strings in general: a value with white space around it
  comes back trimmed, a key with a colon is cut at the colon, a value with a newline is
  cut at the newline, an entry that reads \<open>BEGIN:VEVENT\<close> restarts the record, and a
  key \<open>__proto__\<close> is not stored.
\<close>

theorem parseIcal_icalToString_counterexample:
  "parseIcal (icalToString noConversion [[(lit ''NOTE'', VStr (lit '' x''))]])
     \<noteq> [[(lit ''NOTE'', VStr (lit '' x''))]]
   \<and> parseIcal (icalToString noConversion [[(lit ''NOTE'', VStr (lit '' x''))]])
     = [[(lit ''NOTE'', VStr (lit ''x''))]]
   \<and> parseIcal (icalToString noConversion [[(lit ''a:b'', VStr (lit ''c''))]])
     = [[(lit ''a'', VStr (lit ''b:c''))]]
   \<and> parseIcal (icalToString noConversion [[(lit ''NOTE'', VStr (lit ''x'' @ [NL] @ lit ''y''))]])
     = [[(lit ''NOTE'', VStr (lit ''x''))]]
   \<and> parseIcal (icalToString noConversion [[(lit ''BEGIN'', VStr (lit ''VEVENT''))]])
     = [[]]
   \<and> parseIcal (icalToString noConversion [[(lit ''__proto__'', VStr (lit ''x''))]])
     = [[]]"
  by (simp add: codec_eval string_eval object_eval del: lit_eq_iff)

section \<open>Facts about the calendar and the date-time conversion\<close>

lemma div_step:
  fixes n k :: int
  assumes "0 < k"
  shows "(n + 1) div k = n div k + (if (n + 1) mod k = 0 then 1 else 0)"
proof -
  define r where "r = n mod k"
  define q where "q = n div k"
  have r: "0 \<le> r" "r < k"
    using assms by (simp_all add: r_def)
  have "n = k * q + r"
    by (simp add: r_def q_def)
  then have n: "n + 1 = (r + 1) + k * q"
    by simp
  have d: "((r + 1) + k * q) div k = q + (r + 1) div k"
    using assms by (subst div_mult_self2) simp_all
  have m: "((r + 1) + k * q) mod k = (r + 1) mod k"
    by (rule mod_mult_self2)
  show ?thesis
  proof (cases "r + 1 < k")
    case True
    then have "(r + 1) div k = 0" "(r + 1) mod k = r + 1"
      using r by simp_all
    then show ?thesis unfolding n d m q_def [symmetric] using r by simp
  next
    case False
    then have "r + 1 = k" using r by simp
    then show ?thesis unfolding n d m q_def [symmetric] using assms by simp
  qed
qed

lemma mod_shift: "(y - k * c) mod k = y mod k" for y k c :: int
  using mod_mult_self2 [of y k "- c"] by simp

lemma dvd_facts:
  "y mod 100 = 0 \<Longrightarrow> y mod 4 = 0" "y mod 400 = 0 \<Longrightarrow> y mod 100 = 0" for y :: int
proof -
  assume "y mod 100 = 0"
  then have "100 dvd y" by (simp add: dvd_eq_mod_eq_0)
  then have "4 dvd y" using dvd_trans [of 4 100 y] by simp
  then show "y mod 4 = 0" by (simp add: dvd_eq_mod_eq_0)
next
  assume "y mod 400 = 0"
  then have "400 dvd y" by (simp add: dvd_eq_mod_eq_0)
  then have "100 dvd y" using dvd_trans [of 100 400 y] by simp
  then show "y mod 100 = 0" by (simp add: dvd_eq_mod_eq_0)
qed

lemma DayFromYear_step: "DayFromYear (y + 1) = DayFromYear y + DaysInYear y"
proof -
  have a: "(y - 1969 + 1) div 4 = (y - 1969) div 4 + (if y mod 4 = 0 then 1 else 0)"
    using div_step [of 4 "y - 1969"] mod_shift [of y 4 492] by simp
  have b: "(y - 1901 + 1) div 100 = (y - 1901) div 100 + (if y mod 100 = 0 then 1 else 0)"
    using div_step [of 100 "y - 1901"] mod_shift [of y 100 19] by simp
  have c: "(y - 1601 + 1) div 400 = (y - 1601) div 400 + (if y mod 400 = 0 then 1 else 0)"
    using div_step [of 400 "y - 1601"] mod_shift [of y 400 4] by simp
  have "DayFromYear (y + 1) = 365 * (y - 1970) + 365 + (y - 1969 + 1) div 4
          - (y - 1901 + 1) div 100 + (y - 1601 + 1) div 400"
    by (simp add: DayFromYear_def algebra_simps)
  also have "\<dots> = DayFromYear y + 365 + (if y mod 4 = 0 then 1 else 0)
      - (if y mod 100 = 0 then 1 else 0) + (if y mod 400 = 0 then 1 else 0)"
    unfolding a b c DayFromYear_def by (simp only: algebra_simps)
  also have "\<dots> = DayFromYear y + DaysInYear y"
    using dvd_facts [of y] by (simp add: DaysInYear_def)
  finally show ?thesis .
qed

lemma int_div_bounds:
  "0 < b \<Longrightarrow> b * (a div b) \<le> a \<and> a < b * (a div b) + b" for a b :: int
  using mult_div_mod_eq [of b a] pos_mod_sign [of b a] pos_mod_bound [of b a] by linarith

lemma DayFromYear_lower:
  "DayFromYear (1969 + q) \<le> d" if "146097 * q \<le> 400 * d" for q d :: int
proof -
  define a where "a = q div 4"
  define b where "b = (q + 68) div 100"
  define c where "c = (q + 368) div 400"
  have "4 * a \<le> q" "q + 68 < 100 * b + 100" "400 * c \<le> q + 368"
    unfolding a_def b_def c_def
    using int_div_bounds [of 4 q] int_div_bounds [of 100 "q + 68"]
      int_div_bounds [of 400 "q + 368"] by simp_all
  moreover have "DayFromYear (1969 + q) = 365 * q - 365 + a - b + c"
    by (simp add: DayFromYear_def a_def b_def c_def add.commute)
  ultimately show ?thesis using that by linarith
qed

lemma DayFromYear_upper:
  "d < DayFromYear (1972 + q)" if "400 * d < 146097 * q + 146097" for q d :: int
proof -
  define a where "a = (q + 3) div 4"
  define b where "b = (q + 71) div 100"
  define c where "c = (q + 371) div 400"
  have "q + 3 < 4 * a + 4" "100 * b \<le> q + 71" "q + 371 < 400 * c + 400"
    unfolding a_def b_def c_def
    using int_div_bounds [of 4 "q + 3"] int_div_bounds [of 100 "q + 71"]
      int_div_bounds [of 400 "q + 371"] by simp_all
  moreover have "DayFromYear (1972 + q) = 365 * q + 730 + a - b + c"
    by (simp add: DayFromYear_def a_def b_def c_def add.commute)
  ultimately show ?thesis using that by linarith
qed

lemma YearFromDay_spec:
  "DayFromYear (YearFromDay d) \<le> d \<and> d < DayFromYear (YearFromDay d + 1)"
proof -
  define q where "q = (400 * d) div 146097"
  have q: "146097 * q \<le> 400 * d" "400 * d < 146097 * q + 146097"
    unfolding q_def using int_div_bounds [of 146097 "400 * d"] by simp_all
  have 1: "DayFromYear (1970 + q - 1) \<le> d"
    using DayFromYear_lower [OF q(1)] by (simp add: algebra_simps)
  have 2: "d < DayFromYear (1970 + q + 1 + 1)"
    using DayFromYear_upper [OF q(2)] by (simp add: algebra_simps)
  show ?thesis
    using 1 2 by (auto simp: YearFromDay_def Let_def q_def [symmetric])
qed

lemma DaysInYear_bounds: "365 \<le> DaysInYear y \<and> DaysInYear y \<le> 366"
  by (simp add: DaysInYear_def)

lemma DayWithinYear_bounds:
  "0 \<le> DayWithinYear t \<and> DayWithinYear t < DaysInYear (YearFromTime t)"
  using YearFromDay_spec [of "Day t"] DayFromYear_step [of "YearFromTime t"]
  by (simp add: DayWithinYear_def YearFromTime_def)

lemma MonthFromTime_bounds: "0 \<le> MonthFromTime t \<and> MonthFromTime t \<le> 11"
  by (simp add: MonthFromTime_def Let_def)

lemma DateFromTime_bounds: "1 \<le> DateFromTime t \<and> DateFromTime t \<le> 31"
  using DayWithinYear_bounds [of t] DaysInYear_bounds [of "YearFromTime t"]
  by (auto simp: DateFromTime_def MonthFromTime_def DaysBeforeMonth_def InLeapYear_def Let_def
      split: if_splits)

lemma time_of_day:
  assumes "t mod 1000 = 0"
  shows "MakeTime (HourFromTime t) (MinFromTime t) (SecFromTime t) 0 = t mod msPerDay"
proof -
  define S where "S = t div 1000"
  define M where "M = S div 60"
  define H where "H = M div 60"
  define D where "D = H div 24"
  have t: "t = 1000 * S"
    using assms mult_div_mod_eq [of 1000 t] by (simp add: S_def)
  have m: "t div 60000 = M"
    using zdiv_zmult2_eq [of 60 t 1000] by (simp add: M_def S_def)
  have h: "t div 3600000 = H"
    using zdiv_zmult2_eq [of 60 t 60000] m by (simp add: H_def)
  have d: "t div 86400000 = D"
    using zdiv_zmult2_eq [of 24 t 3600000] h by (simp add: D_def)
  have s1: "S = 60 * M + S mod 60"
    unfolding M_def by simp
  have s2: "M = 60 * H + M mod 60"
    unfolding H_def by simp
  have s3: "H = 24 * D + H mod 24"
    unfolding D_def by simp
  have "t mod 86400000 = t - 86400000 * D"
    using minus_mult_div_eq_mod [of t 86400000] d by simp
  also have "\<dots> = (H mod 24) * 3600000 + (M mod 60) * 60000 + (S mod 60) * 1000"
    using t s1 s2 s3 by linarith
  finally show ?thesis
    unfolding MakeTime_def HourFromTime_def MinFromTime_def SecFromTime_def msPerDay_def
    by (simp add: m h S_def [symmetric])
qed

lemma MakeDay_fields:
  "MakeDay (YearFromTime t) (MonthFromTime t) (DateFromTime t) = Day t"
proof -
  have "MonthFromTime t div 12 = 0" "MonthFromTime t mod 12 = MonthFromTime t"
    using MonthFromTime_bounds [of t] by simp_all
  then show ?thesis
    by (simp add: MakeDay_def DateFromTime_def DayWithinYear_def InLeapYear_def Let_def)
qed

lemma year_range_time:
  assumes "1000 \<le> YearFromTime t" and "YearFromTime t \<le> 9999"
  shows "\<bar>t\<bar> \<le> 8640000000000000"
proof -
  define q where "q = (400 * Day t) div 146097"
  have q: "146097 * q \<le> 400 * Day t" "400 * Day t < 146097 * q + 146097"
    unfolding q_def using int_div_bounds [of 146097 "400 * Day t"] by simp_all
  have "999 \<le> 1970 + q \<and> 1970 + q \<le> 10000"
    using assms unfolding YearFromTime_def YearFromDay_def Let_def q_def [symmetric]
    by (simp split: if_splits)
  then have d: "- 400000 \<le> Day t" "Day t \<le> 3000000"
    using q by linarith+
  have "86400000 * Day t \<le> t" "t < 86400000 * Day t + 86400000"
    unfolding Day_def msPerDay_def using int_div_bounds [of 86400000 t] by simp_all
  then show ?thesis using d by linarith
qed

lemma time_from_fields:
  assumes "t mod 1000 = 0"
  shows "MakeDate (MakeDay (YearFromTime t) (MonthFromTime t) (DateFromTime t))
           (MakeTime (HourFromTime t) (MinFromTime t) (SecFromTime t) 0) = t"
  unfolding MakeDay_fields time_of_day [OF assms] MakeDate_def Day_def
  by simp

lemma digit_cases:
  "d < 10 \<Longrightarrow> d = 0 \<or> d = 1 \<or> d = 2 \<or> d = 3 \<or> d = 4 \<or> d = 5 \<or> d = 6 \<or> d = 7 \<or> d = 8
     \<or> d = (9::nat)"
  by auto

lemma digitChar_props:
  assumes "d < 10"
  shows "isDigit (digitChar d)" "\<not> isWhiteSpace (digitChar d)"
    "digitChar d \<noteq> 0x2D" "digitChar d \<noteq> 0x2B" "uint (digitChar d) - 48 = int d"
  using digit_cases [OF assms]
  by (auto simp: digitChar_def isDigit_def isWhiteSpace_def)

lemma parseInt_2:
  "a < 10 \<Longrightarrow> b < 10 \<Longrightarrow> parseInt [digitChar a, digitChar b] = Some (int (10 * a + b))"
  by (simp add: parseInt_def digitChar_props digitsValue_def)

lemma parseInt_4:
  "a < 10 \<Longrightarrow> b < 10 \<Longrightarrow> c < 10 \<Longrightarrow> d < 10 \<Longrightarrow>
   parseInt [digitChar a, digitChar b, digitChar c, digitChar d]
   = Some (int (1000 * a + 100 * b + 10 * c + d))"
  by (simp add: parseInt_def digitChar_props digitsValue_def)

lemma natToString_1: "n < 10 \<Longrightarrow> natToString n = [digitChar n]"
  by (simp add: natToString.simps)

lemma natToString_2:
  "n < 100 \<Longrightarrow> padStart 2 0x30 (natToString n) = [digitChar (n div 10), digitChar (n mod 10)]"
proof (cases "n < 10")
  case True
  then show ?thesis
    by (simp add: natToString_1 padStart_def digitChar_def)
next
  case False
  assume "n < 100"
  then have "n div 10 < 10" by simp
  then show ?thesis
    using False by (subst natToString.simps) (simp add: natToString_1 padStart_def)
qed

lemma natToString_4:
  assumes "1000 \<le> n" and "n < 10000"
  shows "natToString n = [digitChar (n div 1000), digitChar (n div 100 mod 10),
                          digitChar (n div 10 mod 10), digitChar (n mod 10)]"
proof -
  have 1: "n div 10 div 10 = n div 100" "n div 100 div 10 = n div 1000"
    by (simp_all add: div_mult2_eq)
  have 2: "\<not> n < 10" "\<not> n div 10 < 10" "\<not> n div 100 < 10" "n div 1000 < 10"
    using assms by simp_all
  have "natToString n = natToString (n div 10) @ [digitChar (n mod 10)]"
    using 2 by (subst natToString.simps) simp
  also have "natToString (n div 10) = natToString (n div 100) @ [digitChar (n div 10 mod 10)]"
    using 2 by (subst natToString.simps) (simp add: 1)
  also have "natToString (n div 100) = natToString (n div 1000) @ [digitChar (n div 100 mod 10)]"
    using 2 by (subst natToString.simps) (simp add: 1)
  also have "natToString (n div 1000) = [digitChar (n div 1000)]"
    using 2 by (simp add: natToString_1)
  finally show ?thesis by simp
qed

lemma digits_2: "10 * (n div 10) + n mod 10 = n" for n :: nat
  by simp

lemma digits_4:
  "1000 * (n div 1000) + 100 * (n div 100 mod 10) + 10 * (n div 10 mod 10) + n mod 10 = n"
  for n :: nat
proof -
  have "n div 10 div 10 = n div 100" "n div 100 div 10 = n div 1000"
    by (simp_all add: div_mult2_eq)
  then have "n div 100 = 10 * (n div 1000) + n div 100 mod 10"
    "n div 10 = 10 * (n div 100) + n div 10 mod 10"
    "n = 10 * (n div 10) + n mod 10"
    using mult_div_mod_eq [of 10 "n div 100"] mult_div_mod_eq [of 10 "n div 10"] by simp_all
  then show ?thesis by linarith
qed

lemma time_field_bounds:
  "0 \<le> HourFromTime t \<and> HourFromTime t < 24" "0 \<le> MinFromTime t \<and> MinFromTime t < 60"
  "0 \<le> SecFromTime t \<and> SecFromTime t < 60"
  by (simp_all add: HourFromTime_def MinFromTime_def SecFromTime_def)

lemma numberToString_nat: "0 \<le> n \<Longrightarrow> numberToString (Some n) = natToString (nat n)"
  by (simp add: numberToString_def)

lemma pad2: "0 \<le> n \<Longrightarrow> n < 100 \<Longrightarrow>
  padStart 2 0x30 (numberToString (Some n))
  = [digitChar (nat n div 10), digitChar (nat n mod 10)]"
  by (simp add: numberToString_nat natToString_2)

lemma parseInt_pad2:
  assumes "0 \<le> n" and "n < 100"
  shows "parseInt [digitChar (nat n div 10), digitChar (nat n mod 10)] = Some n"
proof -
  have "nat n div 10 < 10" "nat n mod 10 < 10" using assms by simp_all
  then have "parseInt [digitChar (nat n div 10), digitChar (nat n mod 10)]
             = Some (int (10 * (nat n div 10) + nat n mod 10))"
    by (rule parseInt_2)
  then show ?thesis using assms by (simp only: digits_2) simp
qed

lemma parseInt_year:
  assumes "1000 \<le> n" and "n \<le> 9999"
  shows "parseInt [digitChar (nat n div 1000), digitChar (nat n div 100 mod 10),
                   digitChar (nat n div 10 mod 10), digitChar (nat n mod 10)] = Some n"
proof -
  have "nat n div 1000 < 10" "nat n div 100 mod 10 < 10" "nat n div 10 mod 10 < 10"
    "nat n mod 10 < 10" using assms by simp_all
  then have "parseInt [digitChar (nat n div 1000), digitChar (nat n div 100 mod 10),
                   digitChar (nat n div 10 mod 10), digitChar (nat n mod 10)]
     = Some (int (1000 * (nat n div 1000) + 100 * (nat n div 100 mod 10)
                  + 10 * (nat n div 10 mod 10) + nat n mod 10))"
    by (rule parseInt_4)
  then show ?thesis using assms by (simp only: digits_4) simp
qed

lemma year_string:
  assumes "1000 \<le> n" and "n \<le> 9999"
  shows "numberToString (Some n)
         = [digitChar (nat n div 1000), digitChar (nat n div 100 mod 10),
            digitChar (nat n div 10 mod 10), digitChar (nat n mod 10)]"
  using assms by (simp add: numberToString_nat natToString_4)

lemma date_round_trip:
  assumes ms: "t mod 1000 = 0"
    and y: "1000 \<le> YearFromTime t" "YearFromTime t \<le> 9999"
  shows "parseIcalDateTime tz (Some (formatToIcalDateTime tz (TimeValue t) False))
         = Some (TimeValue t)"
proof -
  define Y where "Y = YearFromTime t"
  define Mo where "Mo = MonthFromTime t + 1"
  define Dt where "Dt = DateFromTime t"
  define H where "H = HourFromTime t"
  define Mi where "Mi = MinFromTime t"
  define S where "S = SecFromTime t"
  note f_defs = Y_def Mo_def Dt_def H_def Mi_def S_def
  have b: "1000 \<le> Y" "Y \<le> 9999" "0 \<le> Mo" "Mo < 100" "0 \<le> Dt" "Dt < 100"
    "0 \<le> H" "H < 100" "0 \<le> Mi" "Mi < 100" "0 \<le> S" "S < 100"
    using y MonthFromTime_bounds [of t] DateFromTime_bounds [of t] time_field_bounds [of t]
    by (simp_all add: f_defs)
  define str where "str =
     [digitChar (nat Y div 1000), digitChar (nat Y div 100 mod 10),
      digitChar (nat Y div 10 mod 10), digitChar (nat Y mod 10),
      digitChar (nat Mo div 10), digitChar (nat Mo mod 10),
      digitChar (nat Dt div 10), digitChar (nat Dt mod 10),
      0x54,
      digitChar (nat H div 10), digitChar (nat H mod 10),
      digitChar (nat Mi div 10), digitChar (nat Mi mod 10),
      digitChar (nat S div 10), digitChar (nat S mod 10),
      0x5A]"
  have fmt: "formatToIcalDateTime tz (TimeValue t) False = str"
    using b
    by (simp add: formatToIcalDateTime_def getUTCFullYear_def getUTCMonth_def getUTCDate_def
        getUTCHours_def getUTCMinutes_def getUTCSeconds_def num_add_def f_defs [symmetric]
        year_string pad2 str_def lit_def)
  have sl: "slice 0 4 str = [digitChar (nat Y div 1000), digitChar (nat Y div 100 mod 10),
      digitChar (nat Y div 10 mod 10), digitChar (nat Y mod 10)]"
    "slice 4 6 str = [digitChar (nat Mo div 10), digitChar (nat Mo mod 10)]"
    "slice 6 8 str = [digitChar (nat Dt div 10), digitChar (nat Dt mod 10)]"
    "slice 9 11 str = [digitChar (nat H div 10), digitChar (nat H mod 10)]"
    "slice 11 13 str = [digitChar (nat Mi div 10), digitChar (nat Mi mod 10)]"
    "slice 13 15 str = [digitChar (nat S div 10), digitChar (nat S mod 10)]"
    by (simp_all add: slice_def str_def)
  have sh: "str \<noteq> []" "length str > 8" "str ! 8 = 0x54" "endsWith str (lit ''Z'')"
    by (simp_all add: str_def endsWith_def lit_def)
  have "parseIcalDateTime tz (Some str)
        = Some (Date_UTC (Some Y) (Some (Mo - 1)) (Some Dt) (Some H) (Some Mi) (Some S))"
    using b sh
    by (simp add: parseIcalDateTime_def sl parseInt_year parseInt_pad2 num_add_def Let_def)
  also have "Date_UTC (Some Y) (Some (Mo - 1)) (Some Dt) (Some H) (Some Mi) (Some S)
             = TimeClip t"
    using b time_from_fields [OF ms]
    by (simp add: Date_UTC_def MakeFullDate_def f_defs)
  also have "TimeClip t = TimeValue t"
    using year_range_time [OF y] by (simp add: TimeClip_def)
  finally show ?thesis by (simp add: fmt)
qed

section \<open>The round trip of an Event\<close>

lemma obj_get_copyEventProperty:
  "obj_get (copyEventProperty toUpperCase event icalObj x) K =
     (if x \<notin> set eventNames \<and> K = toUpperCase x \<and> toUpperCase x \<noteq> lit ''__proto__''
      then obj_get event x else obj_get icalObj K)"
  by (simp add: copyEventProperty_def obj_get_obj_set)

lemma keys_copyEventProperty:
  "fst ` set (copyEventProperty toUpperCase event icalObj x) =
     (if x \<notin> set eventNames \<and> toUpperCase x \<noteq> lit ''__proto__''
      then insert (toUpperCase x) (fst ` set icalObj) else fst ` set icalObj)"
  by (simp add: copyEventProperty_def keys_obj_set)

lemma obj_get_copyIcalProperty:
  "obj_get (copyIcalProperty icalObj event x) K =
     (if x \<notin> set icalNames \<and> K = x \<and> x \<noteq> lit ''__proto__''
      then obj_get icalObj x else obj_get event K)"
  by (simp add: copyIcalProperty_def obj_get_obj_set)

lemma copyEventProperty_other:
  "\<forall>k\<in>set ks. k \<notin> set eventNames \<longrightarrow> toUpperCase k \<noteq> K \<Longrightarrow>
   obj_get (foldl (copyEventProperty toUpperCase event) icalObj ks) K = obj_get icalObj K"
  by (induction ks arbitrary: icalObj) (auto simp: obj_get_copyEventProperty)

lemma copyEventProperty_custom:
  assumes "k \<in> set ks" and "k \<notin> set eventNames" and "toUpperCase k \<noteq> lit ''__proto__''"
    and "\<forall>a\<in>set ks. a \<notin> set eventNames \<longrightarrow> toUpperCase a = toUpperCase k \<longrightarrow> a = k"
  shows "obj_get (foldl (copyEventProperty toUpperCase event) icalObj ks) (toUpperCase k)
         = obj_get event k"
  using assms
proof (induction ks arbitrary: icalObj rule: rev_induct)
  case Nil
  then show ?case by simp
next
  case (snoc x ks)
  show ?case
  proof (cases "x \<notin> set eventNames \<and> toUpperCase x = toUpperCase k")
    case True
    then have "x = k"
      using snoc.prems(4) by simp
    then show ?thesis
      using snoc.prems(2,3) by (simp add: obj_get_copyEventProperty)
  next
    case False
    then have "x \<noteq> k" using snoc.prems(2) by auto
    then have "k \<in> set ks" using snoc.prems(1) by simp
    then have "obj_get (foldl (copyEventProperty toUpperCase event) icalObj ks) (toUpperCase k)
               = obj_get event k"
      using snoc.prems(2,3,4) by (intro snoc.IH) simp_all
    then show ?thesis
      using False by (auto simp: obj_get_copyEventProperty)
  qed
qed

lemma copyEventProperty_keys:
  "K \<in> fst ` set (foldl (copyEventProperty toUpperCase event) icalObj ks) \<Longrightarrow>
   K \<in> fst ` set icalObj \<or> (\<exists>k\<in>set ks. k \<notin> set eventNames \<and> K = toUpperCase k)"
proof (induction ks arbitrary: icalObj)
  case Nil
  then show ?case by simp
next
  case (Cons x ks)
  from Cons.prems
  have "K \<in> fst ` set (copyEventProperty toUpperCase event icalObj x)
        \<or> (\<exists>k\<in>set ks. k \<notin> set eventNames \<and> K = toUpperCase k)"
    using Cons.IH [of "copyEventProperty toUpperCase event icalObj x"] by simp
  moreover have "K \<in> fst ` set icalObj \<or> (x \<notin> set eventNames \<and> K = toUpperCase x)"
    if "K \<in> fst ` set (copyEventProperty toUpperCase event icalObj x)"
    using that by (auto simp: keys_copyEventProperty split: if_splits)
  ultimately show ?case by auto
qed

lemma copyEventProperty_has_key:
  "k \<in> set ks \<Longrightarrow> k \<notin> set eventNames \<Longrightarrow> toUpperCase k \<noteq> lit ''__proto__'' \<Longrightarrow>
   toUpperCase k \<in> fst ` set (foldl (copyEventProperty toUpperCase event) icalObj ks)"
proof (induction ks arbitrary: icalObj rule: rev_induct)
  case Nil
  then show ?case by simp
next
  case (snoc x ks)
  show ?case
  proof (cases "x = k")
    case True
    then show ?thesis using snoc.prems by (simp add: keys_copyEventProperty)
  next
    case False
    then have "toUpperCase k \<in> fst ` set (foldl (copyEventProperty toUpperCase event) icalObj ks)"
      using snoc by simp
    then show ?thesis
      by (simp add: keys_copyEventProperty)
  qed
qed

lemma copyIcalProperty_other:
  "K \<notin> set ks \<or> K \<in> set icalNames \<Longrightarrow>
   obj_get (foldl (copyIcalProperty icalObj) event ks) K = obj_get event K"
  by (induction ks arbitrary: event) (auto simp: obj_get_copyIcalProperty)

lemma copyIcalProperty_custom:
  "K \<in> set ks \<Longrightarrow> K \<notin> set icalNames \<Longrightarrow> K \<noteq> lit ''__proto__'' \<Longrightarrow>
   obj_get (foldl (copyIcalProperty icalObj) event ks) K = obj_get icalObj K"
proof (induction ks arbitrary: event rule: rev_induct)
  case Nil
  then show ?case by simp
next
  case (snoc x ks)
  show ?case
  proof (cases "x = K")
    case True
    then show ?thesis using snoc.prems by (simp add: obj_get_copyIcalProperty)
  next
    case False
    then have "obj_get (foldl (copyIcalProperty icalObj) event ks) K = obj_get icalObj K"
      using snoc by simp
    then show ?thesis using False
      by (simp add: obj_get_copyIcalProperty)
  qed
qed


lemma icalNames_simps [simp]:
  "lit ''UID'' \<in> set icalNames" "lit ''SUMMARY'' \<in> set icalNames"
  "lit ''DTSTART'' \<in> set icalNames" "lit ''DTEND'' \<in> set icalNames"
  "lit ''LOCATION'' \<in> set icalNames" "lit ''DESCRIPTION'' \<in> set icalNames"
  "lit ''id'' \<notin> set icalNames" "lit ''summary'' \<notin> set icalNames"
  "lit ''start'' \<notin> set icalNames" "lit ''end'' \<notin> set icalNames"
  "lit ''location'' \<notin> set icalNames" "lit ''description'' \<notin> set icalNames"
  by (simp_all add: icalNames_def)

lemma eventNames_simps [simp]:
  "lit ''id'' \<in> set eventNames" "lit ''summary'' \<in> set eventNames"
  "lit ''start'' \<in> set eventNames" "lit ''end'' \<in> set eventNames"
  "lit ''location'' \<in> set eventNames" "lit ''description'' \<in> set eventNames"
  by (simp_all add: eventNames_def)

lemma nonEmptyString_D: "nonEmptyString v \<Longrightarrow> is_string v \<and> truthy v \<and> v \<noteq> VUndefined"
  by (cases v) simp_all

lemma optionalString_D:
  "optionalString v \<Longrightarrow> (v = VUndefined \<or> is_string v) \<and> (truthy v \<longrightarrow> is_string v)"
  by (cases v) simp_all

lemma event_round_trip:
  assumes id: "nonEmptyString (obj_get event (lit ''id''))"
    and sm: "is_string (obj_get event (lit ''summary''))"
    and st: "obj_get event (lit ''start'') = VDate d1"
    and en: "obj_get event (lit ''end'') = VDate d2"
    and loc: "optionalString (obj_get event (lit ''location''))"
    and desc: "optionalString (obj_get event (lit ''description''))"
    and names: "roundTripNames toUpperCase event"
  shows "\<exists>icalObj event'.
           mapEventToIcalObject tz toUpperCase event = Inr icalObj
         \<and> mapIcalObjectToEvent tz icalObj = Inr event'
         \<and> obj_get event' (lit ''id'') = obj_get event (lit ''id'')
         \<and> obj_get event' (lit ''summary'') = obj_get event (lit ''summary'')
         \<and> obj_get event' (lit ''start'')
             = date_result (parseIcalDateTime tz (Some (formatToIcalDateTime tz d1 False)))
         \<and> obj_get event' (lit ''end'')
             = date_result (parseIcalDateTime tz (Some (formatToIcalDateTime tz d2 False)))
         \<and> obj_get event' (lit ''location'')
             = (if truthy (obj_get event (lit ''location''))
                then obj_get event (lit ''location'') else VUndefined)
         \<and> obj_get event' (lit ''description'')
             = (if truthy (obj_get event (lit ''description''))
                then obj_get event (lit ''description'') else VUndefined)
         \<and> (\<forall>k\<in>set (customKeys event). obj_get event' (toUpperCase k) = obj_get event k)"
proof -
  define o1 where "o1 = obj_set [] (lit ''UID'') (obj_get event (lit ''id''))"
  define o2 where "o2 = obj_set o1 (lit ''SUMMARY'') (obj_get event (lit ''summary''))"
  define o3 where "o3 = obj_set o2 (lit ''DTSTART'') (VStr (formatToIcalDateTime tz d1 False))"
  define o4 where "o4 = obj_set o3 (lit ''DTEND'') (VStr (formatToIcalDateTime tz d2 False))"
  define o5 where "o5 = (if truthy (obj_get event (lit ''location''))
     then obj_set o4 (lit ''LOCATION'') (obj_get event (lit ''location'')) else o4)"
  define o6 where "o6 = (if truthy (obj_get event (lit ''description''))
     then obj_set o5 (lit ''DESCRIPTION'') (obj_get event (lit ''description'')) else o5)"
  define r where "r = foldl (copyEventProperty toUpperCase event) o6 (map fst event)"
  note o_defs = o1_def o2_def o3_def o4_def o5_def o6_def
  have forward: "mapEventToIcalObject tz toUpperCase event = Inr r"
    using id [THEN nonEmptyString_D]
    by (simp add: mapEventToIcalObject_def formatDateField_def st en r_def o_defs Let_def)
  have keys6: "fst ` set o6 \<subseteq> set icalNames"
    by (auto simp: o_defs keys_obj_set split: if_splits)
  have custom: "toUpperCase k \<notin> set icalNames" "toUpperCase k \<notin> set eventNames"
    "toUpperCase k \<noteq> lit ''__proto__''" "k \<in> set (map fst event)" "k \<notin> set eventNames"
    if "k \<in> set (customKeys event)" for k
    using that names by (auto simp: roundTripNames_def list_all_iff customKeys_def)
  have inj: "a = k" if "a \<in> set (customKeys event)" "k \<in> set (customKeys event)"
    "toUpperCase a = toUpperCase k" for a k
    using names that by (auto simp: roundTripNames_def distinct_map dest: inj_onD)
  have std: "obj_get r K = obj_get o6 K" if "K \<in> set icalNames" for K
    unfolding r_def
  proof (rule copyEventProperty_other, intro ballI impI)
    fix k assume "k \<in> set (map fst event)" "k \<notin> set eventNames"
    then have "k \<in> set (customKeys event)" by (simp add: customKeys_def)
    then show "toUpperCase k \<noteq> K" using custom(1) that by auto
  qed
  have r_uid: "obj_get r (lit ''UID'') = obj_get event (lit ''id'')"
    and r_sum: "obj_get r (lit ''SUMMARY'') = obj_get event (lit ''summary'')"
    and r_st: "obj_get r (lit ''DTSTART'') = VStr (formatToIcalDateTime tz d1 False)"
    and r_en: "obj_get r (lit ''DTEND'') = VStr (formatToIcalDateTime tz d2 False)"
    and r_loc: "obj_get r (lit ''LOCATION'')
             = (if truthy (obj_get event (lit ''location''))
                then obj_get event (lit ''location'') else VUndefined)"
    and r_desc: "obj_get r (lit ''DESCRIPTION'')
             = (if truthy (obj_get event (lit ''description''))
                then obj_get event (lit ''description'') else VUndefined)"
    by (simp_all add: std o_defs obj_get_obj_set) (simp_all add: obj_get_def)
  have r_custom: "obj_get r (toUpperCase k) = obj_get event k"
    and r_has: "toUpperCase k \<in> set (map fst r)"
    if "k \<in> set (customKeys event)" for k
  proof -
    show "obj_get r (toUpperCase k) = obj_get event k"
      unfolding r_def
    proof (rule copyEventProperty_custom)
      show "\<forall>a\<in>set (map fst event). a \<notin> set eventNames \<longrightarrow>
              toUpperCase a = toUpperCase k \<longrightarrow> a = k"
        using inj [OF _ that] by (auto simp: customKeys_def)
    qed (use custom [OF that] in simp_all)
    show "toUpperCase k \<in> set (map fst r)"
      using copyEventProperty_has_key [of k "map fst event" toUpperCase event o6] custom [OF that]
      by (simp add: r_def)
  qed
  have r_keys: "K \<in> set icalNames \<or> K \<notin> set eventNames" if "K \<in> set (map fst r)" for K
  proof -
    from that have "K \<in> fst ` set o6
        \<or> (\<exists>k\<in>set (map fst event). k \<notin> set eventNames \<and> K = toUpperCase k)"
      unfolding r_def using copyEventProperty_keys [of K toUpperCase event o6 "map fst event"]
      by simp
    then show ?thesis
    proof
      assume "K \<in> fst ` set o6" then show ?thesis using keys6 by auto
    next
      assume "\<exists>k\<in>set (map fst event). k \<notin> set eventNames \<and> K = toUpperCase k"
      then obtain k where "k \<in> set (customKeys event)" "K = toUpperCase k"
        by (auto simp: customKeys_def)
      then show ?thesis using custom(2) by auto
    qed
  qed
  define e1 where "e1 = obj_set [] (lit ''id'') (obj_get r (lit ''UID''))"
  define e2 where "e2 = obj_set e1 (lit ''summary'') (obj_get r (lit ''SUMMARY''))"
  define e3 where "e3 = obj_set e2 (lit ''start'')
     (date_result (parseIcalDateTime tz (str_arg (obj_get r (lit ''DTSTART'')))))"
  define e4 where "e4 = obj_set e3 (lit ''end'')
     (date_result (parseIcalDateTime tz (str_arg (obj_get r (lit ''DTEND'')))))"
  define e5 where "e5 = (if truthy (obj_get r (lit ''LOCATION''))
     then obj_set e4 (lit ''location'') (obj_get r (lit ''LOCATION'')) else e4)"
  define e6 where "e6 = (if truthy (obj_get r (lit ''DESCRIPTION''))
     then obj_set e5 (lit ''description'') (obj_get r (lit ''DESCRIPTION'')) else e5)"
  define e' where "e' = foldl (copyIcalProperty r) e6 (map fst r)"
  note e_defs = e1_def e2_def e3_def e4_def e5_def e6_def
  have "\<not> (\<not> is_string (obj_get r (lit ''UID''))
         \<or> \<not> is_string (obj_get r (lit ''SUMMARY''))
         \<or> \<not> is_string (obj_get r (lit ''DTSTART''))
         \<or> \<not> is_string (obj_get r (lit ''DTEND''))
         \<or> (obj_get r (lit ''LOCATION'') \<noteq> VUndefined
              \<and> \<not> is_string (obj_get r (lit ''LOCATION'')))
         \<or> (obj_get r (lit ''DESCRIPTION'') \<noteq> VUndefined
              \<and> \<not> is_string (obj_get r (lit ''DESCRIPTION''))))"
    using id [THEN nonEmptyString_D] sm loc [THEN optionalString_D] desc [THEN optionalString_D]
    by (simp add: r_uid r_sum r_st r_en r_loc r_desc)
  then have backward: "mapIcalObjectToEvent tz r = Inr e'"
    unfolding mapIcalObjectToEvent_def e'_def e_defs Let_def by (simp only: if_False)
  have fixed: "obj_get e' K = obj_get e6 K" if "K \<in> set eventNames" for K
    unfolding e'_def
  proof (rule copyIcalProperty_other)
    show "K \<notin> set (map fst r) \<or> K \<in> set icalNames"
      using r_keys [of K] that by auto
  qed
  have e_custom: "obj_get e' (toUpperCase k) = obj_get event k"
    if "k \<in> set (customKeys event)" for k
  proof -
    have "obj_get e' (toUpperCase k) = obj_get r (toUpperCase k)"
      unfolding e'_def using r_has [OF that] custom(1,3) [OF that]
      by (rule copyIcalProperty_custom)
    then show ?thesis by (simp add: r_custom [OF that])
  qed
  have "obj_get e' (lit ''id'') = obj_get event (lit ''id'')"
    "obj_get e' (lit ''summary'') = obj_get event (lit ''summary'')"
    "obj_get e' (lit ''start'')
             = date_result (parseIcalDateTime tz (Some (formatToIcalDateTime tz d1 False)))"
    "obj_get e' (lit ''end'')
             = date_result (parseIcalDateTime tz (Some (formatToIcalDateTime tz d2 False)))"
    "obj_get e' (lit ''location'')
             = (if truthy (obj_get event (lit ''location''))
                then obj_get event (lit ''location'') else VUndefined)"
    "obj_get e' (lit ''description'')
             = (if truthy (obj_get event (lit ''description''))
                then obj_get event (lit ''description'') else VUndefined)"
    by (simp_all add: fixed e_defs obj_get_obj_set r_uid r_sum r_st r_en r_loc r_desc str_arg_def)
       (simp_all add: obj_get_def)
  then show ?thesis using forward backward e_custom by blast
qed

lemma exactDate_D:
  assumes "exactDate v"
  obtains t where "v = VDate (TimeValue t)" "t mod 1000 = 0" "1000 \<le> YearFromTime t"
    "YearFromTime t \<le> 9999"
proof (cases v)
  case (VDate d)
  with assms that show ?thesis by (cases d) auto
qed (use assms in simp_all)

text \<open>
  C3, as amended. Take an Event whose \<open>id\<close> is a non-empty string, whose \<open>summary\<close>
  is a string, whose \<open>start\<close> and \<open>end\<close> are valid dates on a whole second with a
  UTC year from 1000 to 9999, whose \<open>location\<close> and \<open>description\<close> are strings or
  absent, and whose custom field names have upper-cased forms that differ from each
  other, from \<open>UID\<close>, \<open>SUMMARY\<close>, \<open>DTSTART\<close>, \<open>DTEND\<close>, \<open>LOCATION\<close>,
  \<open>DESCRIPTION\<close>, from the six field names of an Event and from \<open>__proto__\<close>. Mapping
  it to a PropertyRecord with \<open>mapEventToIcalObject\<close> and mapping that record back with
  \<open>mapIcalObjectToEvent\<close> succeeds and recovers \<open>summary\<close>, \<open>start\<close>, \<open>end\<close> and
  \<open>id\<close>, recovers \<open>location\<close> and \<open>description\<close> when they are non-empty (an empty
  one comes back absent), and recovers every custom field under its upper-cased name.
  This holds for every time zone of the host and every upper-casing function.
\<close>

theorem event_record_round_trip:
  assumes "roundTripEvent toUpperCase event"
  shows "\<exists>icalObj event'.
           mapEventToIcalObject tz toUpperCase event = Inr icalObj
         \<and> mapIcalObjectToEvent tz icalObj = Inr event'
         \<and> obj_get event' (lit ''summary'') = obj_get event (lit ''summary'')
         \<and> obj_get event' (lit ''start'') = obj_get event (lit ''start'')
         \<and> obj_get event' (lit ''end'') = obj_get event (lit ''end'')
         \<and> obj_get event' (lit ''id'') = obj_get event (lit ''id'')
         \<and> obj_get event' (lit ''location'')
             = (if truthy (obj_get event (lit ''location''))
                then obj_get event (lit ''location'') else VUndefined)
         \<and> obj_get event' (lit ''description'')
             = (if truthy (obj_get event (lit ''description''))
                then obj_get event (lit ''description'') else VUndefined)
         \<and> (\<forall>k\<in>set (customKeys event). obj_get event' (toUpperCase k) = obj_get event k)"
proof -
  from assms obtain t1 where st: "obj_get event (lit ''start'') = VDate (TimeValue t1)"
    and t1: "t1 mod 1000 = 0" "1000 \<le> YearFromTime t1" "YearFromTime t1 \<le> 9999"
    unfolding roundTripEvent_def by (elim conjE exactDate_D [of "obj_get event (lit ''start'')"])
  from assms obtain t2 where en: "obj_get event (lit ''end'') = VDate (TimeValue t2)"
    and t2: "t2 mod 1000 = 0" "1000 \<le> YearFromTime t2" "YearFromTime t2 \<le> 9999"
    unfolding roundTripEvent_def by (elim conjE exactDate_D [of "obj_get event (lit ''end'')"])
  have d1: "date_result (parseIcalDateTime tz (Some (formatToIcalDateTime tz (TimeValue t1) False)))
            = VDate (TimeValue t1)"
    using date_round_trip [OF t1, of tz] by (simp add: date_result_def)
  have d2: "date_result (parseIcalDateTime tz (Some (formatToIcalDateTime tz (TimeValue t2) False)))
            = VDate (TimeValue t2)"
    using date_round_trip [OF t2, of tz] by (simp add: date_result_def)
  from assms have "nonEmptyString (obj_get event (lit ''id''))"
    "is_string (obj_get event (lit ''summary''))"
    "optionalString (obj_get event (lit ''location''))"
    "optionalString (obj_get event (lit ''description''))"
    "roundTripNames toUpperCase event"
    by (simp_all add: roundTripEvent_def)
  from event_round_trip [OF this(1,2) st en this(3,4,5), of tz]
  show ?thesis
    unfolding d1 d2 st en by blast
qed

theorem event_record_round_trip_witness:
  "roundTripEvent asciiUpperCase exampleEvent
   \<and> (\<exists>icalObj event'.
           mapEventToIcalObject utcZone asciiUpperCase exampleEvent = Inr icalObj
         \<and> mapIcalObjectToEvent utcZone icalObj = Inr event'
         \<and> obj_get event' (lit ''summary'') = VStr (lit ''Test Event'')
         \<and> obj_get event' (lit ''start'') = VDate (TimeValue 1672567200000)
         \<and> obj_get event' (lit ''end'') = VDate (TimeValue 1672570800000)
         \<and> obj_get event' (lit ''id'') = VStr (lit ''event1@example.com'')
         \<and> obj_get event' (lit ''location'') = VStr (lit ''Conference Room'')
         \<and> obj_get event' (lit ''description'') = VUndefined
         \<and> obj_get event' (lit ''CUSTOMFIELD'') = VStr (lit ''value1''))"
proof -
  have keys: "customKeys exampleEvent = [lit ''customField'']"
    by (simp add: customKeys_def exampleEvent_def eventNames_def)
  have up: "asciiUpperCase (lit ''customField'') = lit ''CUSTOMFIELD''"
    by (simp add: asciiUpperCase_def lit_def)
  have get: "obj_get exampleEvent (lit ''id'') = VStr (lit ''event1@example.com'')"
    "obj_get exampleEvent (lit ''summary'') = VStr (lit ''Test Event'')"
    "obj_get exampleEvent (lit ''start'') = VDate (TimeValue 1672567200000)"
    "obj_get exampleEvent (lit ''end'') = VDate (TimeValue 1672570800000)"
    "obj_get exampleEvent (lit ''location'') = VStr (lit ''Conference Room'')"
    "obj_get exampleEvent (lit ''description'') = VUndefined"
    "obj_get exampleEvent (lit ''customField'') = VStr (lit ''value1'')"
    by (simp_all add: obj_get_def exampleEvent_def)
  have years: "YearFromTime 1672567200000 = 2023" "YearFromTime 1672570800000 = 2023"
    by (simp_all add: YearFromTime_def YearFromDay_def Day_def msPerDay_def DayFromYear_def)
  have 1: "roundTripEvent asciiUpperCase exampleEvent"
    by (simp add: roundTripEvent_def roundTripNames_def keys up get years icalNames_def
        eventNames_def)
  show ?thesis
    using event_record_round_trip [OF 1, of utcZone] 1
    by (simp add: keys up get)
qed

text \<open>
  C3 as stated fails. An Event without \<open>id\<close> (the field is optional) is mapped to a
  record without \<open>UID\<close>, which \<open>mapIcalObjectToEvent\<close> rejects. A \<open>start\<close> with
  milliseconds comes back on the whole second. A custom field named \<open>uid\<close> is written
  over \<open>UID\<close> and comes back as the \<open>id\<close>.
\<close>

theorem event_record_round_trip_counterexample:
  "mapEventToIcalObject utcZone asciiUpperCase
     [(lit ''summary'', VStr (lit ''S'')),
      (lit ''start'', VDate (TimeValue 1672567200000)),
      (lit ''end'', VDate (TimeValue 1672570800000))]
   = Inr [(lit ''SUMMARY'', VStr (lit ''S'')),
          (lit ''DTSTART'', VStr (lit ''20230101T100000Z'')),
          (lit ''DTEND'', VStr (lit ''20230101T110000Z''))]
   \<and> mapIcalObjectToEvent utcZone
        [(lit ''SUMMARY'', VStr (lit ''S'')),
         (lit ''DTSTART'', VStr (lit ''20230101T100000Z'')),
         (lit ''DTEND'', VStr (lit ''20230101T110000Z''))]
       = Inl InvalidRecord
   \<and> mapEventToIcalObject utcZone asciiUpperCase
        [(lit ''id'', VStr (lit ''e1'')), (lit ''summary'', VStr (lit ''S'')),
         (lit ''start'', VDate (TimeValue 1672567200500)),
         (lit ''end'', VDate (TimeValue 1672570800000))]
       = Inr [(lit ''UID'', VStr (lit ''e1'')), (lit ''SUMMARY'', VStr (lit ''S'')),
              (lit ''DTSTART'', VStr (lit ''20230101T100000Z'')),
              (lit ''DTEND'', VStr (lit ''20230101T110000Z''))]
   \<and> mapIcalObjectToEvent utcZone
        [(lit ''UID'', VStr (lit ''e1'')), (lit ''SUMMARY'', VStr (lit ''S'')),
         (lit ''DTSTART'', VStr (lit ''20230101T100000Z'')),
         (lit ''DTEND'', VStr (lit ''20230101T110000Z''))]
       = Inr [(lit ''id'', VStr (lit ''e1'')), (lit ''summary'', VStr (lit ''S'')),
              (lit ''start'', VDate (TimeValue 1672567200000)),
              (lit ''end'', VDate (TimeValue 1672570800000))]
   \<and> mapEventToIcalObject utcZone asciiUpperCase
        [(lit ''id'', VStr (lit ''e1'')), (lit ''summary'', VStr (lit ''S'')),
         (lit ''start'', VDate (TimeValue 1672567200000)),
         (lit ''end'', VDate (TimeValue 1672570800000)),
         (lit ''uid'', VStr (lit ''other''))]
       = Inr [(lit ''UID'', VStr (lit ''other'')), (lit ''SUMMARY'', VStr (lit ''S'')),
              (lit ''DTSTART'', VStr (lit ''20230101T100000Z'')),
              (lit ''DTEND'', VStr (lit ''20230101T110000Z''))]
   \<and> mapIcalObjectToEvent utcZone
        [(lit ''UID'', VStr (lit ''other'')), (lit ''SUMMARY'', VStr (lit ''S'')),
         (lit ''DTSTART'', VStr (lit ''20230101T100000Z'')),
         (lit ''DTEND'', VStr (lit ''20230101T110000Z''))]
       = Inr [(lit ''id'', VStr (lit ''other'')), (lit ''summary'', VStr (lit ''S'')),
              (lit ''start'', VDate (TimeValue 1672567200000)),
              (lit ''end'', VDate (TimeValue 1672570800000))]"
  by (simp add: map_eval object_eval date_eval string_eval del: lit_eq_iff lit_eq_Nil)

end
